theory Spec2Isabelle
  imports
    Main
    "HOL-Library.AList"
    "HOL-Library.Char_ord"
    "HOL-Library.List_Lexorder"
    "HOL-Library.Word"
begin

unbundle bit_operations_syntax

section \<open>The environment of lnsync: file system, log, notifications\<close>

text \<open>
  lnsync.go touches the outside world through a handful of library calls:
  \<^verbatim>\<open>ioutil.ReadDir\<close>, \<^verbatim>\<open>os.Lstat\<close>, \<^verbatim>\<open>filepath.EvalSymlinks\<close>, \<^verbatim>\<open>os.Symlink\<close>,
  \<^verbatim>\<open>os.Remove\<close>, \<^verbatim>\<open>path.Base\<close>, \<^verbatim>\<open>strings.Split\<close> and \<^verbatim>\<open>log.Println\<close>. They are
  modelled here as functions on an explicit world state.

  \<^item> A directory is an association list from entry names to nodes; the file system is an
    association list from directory paths to directories. A path that is not a key is
    not a directory (listing it fails).
  \<^item> A node is a regular file or a symbolic link carrying its target string. These are
    the entries that \<^verbatim>\<open>unlink\<close> removes; subdirectories of the destination are outside
    the model.
  \<^item> The operating system can refuse \<^verbatim>\<open>Lstat\<close> or \<^verbatim>\<open>Remove\<close> of an entry that exists
    (permissions, a read-only file system). The reconciliation pass, whose error returns
    depend on it, takes the refused entries as the parameter \<open>faults\<close>; with
    \<open>no_faults\<close> every call is decided by the directories alone.
  \<^item> The path \<^verbatim>\<open>dir + "/" + name\<close> that the program builds for an entry of a directory
    is handed to the system calls as the pair \<open>(dir, name)\<close>; names are opaque keys.
  \<^item> Whether the target of a symbolic link resolves depends on the whole file system;
    it is the predicate \<open>resolves\<close> on target strings. Removing a link that does not
    resolve never changes whether another link resolves, so the predicate is constant
    during the reconciliation pass.
  \<^item> \<^verbatim>\<open>log.Println\<close> appends a line to \<open>logged\<close>.
\<close>

type_synonym path = string

datatype node = RegularFile | Symlink path

type_synonym directory = "(string \<times> node) list"

datatype errno = ENOENT | EEXIST | EACCES

datatype error =
    PathError string path errno
  | LinkError string path path errno

record world =
  dirs :: "(path \<times> directory) list"
  resolves :: "path \<Rightarrow> bool"
  logged :: "string list"

fun errno_Error :: "errno \<Rightarrow> string" where
  "errno_Error ENOENT = ''no such file or directory''"
| "errno_Error EEXIST = ''file exists''"
| "errno_Error EACCES = ''permission denied''"

text \<open>\<^verbatim>\<open>err.Error()\<close> of \<^verbatim>\<open>*os.PathError\<close> and \<^verbatim>\<open>*os.LinkError\<close>.\<close>

fun Error :: "error \<Rightarrow> string" where
  "Error (PathError opn p en) = opn @ '' '' @ p @ '': '' @ errno_Error en"
| "Error (LinkError opn old new en) =
     opn @ '' '' @ old @ '' '' @ new @ '': '' @ errno_Error en"

definition log_Println :: "string \<Rightarrow> world \<Rightarrow> world" where
  "log_Println line w = w\<lparr>logged := logged w @ [line]\<rparr>"

definition join :: "path \<times> string \<Rightarrow> path" where
  "join p = fst p @ ''/'' @ snd p"

subsection \<open>path.Base\<close>

text \<open>
  \<^verbatim>\<open>path.Base\<close>: the empty path gives \<^verbatim>\<open>"."\<close>; trailing slashes are stripped; the part
  after the last remaining slash is returned; a path of slashes only gives \<^verbatim>\<open>"/"\<close>.
\<close>

definition Base :: "path \<Rightarrow> string" where
  "Base p =
     (if p = [] then ''.''
      else
        let p1 = rev (dropWhile (\<lambda>c. c = CHR ''/'') (rev p));
            p2 = rev (takeWhile (\<lambda>c. c \<noteq> CHR ''/'') (rev p1))
        in if p2 = [] then ''/'' else p2)"

subsection \<open>System calls\<close>

text \<open>
  \<^verbatim>\<open>os.FileMode\<close> is a \<^verbatim>\<open>uint32\<close>; \<^verbatim>\<open>os.ModeSymlink\<close> is bit 27. The permission bits
  reported for a node play no role in the program.
\<close>

type_synonym FileMode = "32 word"

definition ModeSymlink :: FileMode where
  "ModeSymlink = push_bit 27 1"

record FileInfo =
  Name_of :: string
  Mode :: FileMode

fun node_Mode :: "node \<Rightarrow> FileMode" where
  "node_Mode RegularFile = 0x1A4"
| "node_Mode (Symlink t) = ModeSymlink OR 0x1FF"

definition os_Lstat :: "path \<times> string \<Rightarrow> world \<Rightarrow> error + FileInfo" where
  "os_Lstat p w =
     (case map_of (dirs w) (fst p) of
        None \<Rightarrow> Inl (PathError ''lstat'' (join p) ENOENT)
      | Some es \<Rightarrow>
          (case map_of es (snd p) of
             None \<Rightarrow> Inl (PathError ''lstat'' (join p) ENOENT)
           | Some nd \<Rightarrow> Inr \<lparr>Name_of = snd p, Mode = node_Mode nd\<rparr>))"

text \<open>\<^verbatim>\<open>ioutil.ReadDir\<close> returns the entries sorted by file name; only the names are used.\<close>

definition ioutil_ReadDir :: "path \<Rightarrow> world \<Rightarrow> error + string list" where
  "ioutil_ReadDir d w =
     (case map_of (dirs w) d of
        None \<Rightarrow> Inl (PathError ''open'' d ENOENT)
      | Some es \<Rightarrow> Inr (sort (remdups (map fst es))))"

text \<open>
  \<^verbatim>\<open>filepath.EvalSymlinks\<close> on an entry: a regular file is its own resolution, a
  symbolic link resolves exactly when its target does.
\<close>

definition filepath_EvalSymlinks :: "path \<times> string \<Rightarrow> world \<Rightarrow> error + path" where
  "filepath_EvalSymlinks p w =
     (case map_of (dirs w) (fst p) of
        None \<Rightarrow> Inl (PathError ''lstat'' (join p) ENOENT)
      | Some es \<Rightarrow>
          (case map_of es (snd p) of
             None \<Rightarrow> Inl (PathError ''lstat'' (join p) ENOENT)
           | Some RegularFile \<Rightarrow> Inr (join p)
           | Some (Symlink t) \<Rightarrow>
               if resolves w t then Inr t else Inl (PathError ''lstat'' t ENOENT)))"

text \<open>
  \<^verbatim>\<open>os.Symlink(oldname, newname)\<close>: fails with \<^verbatim>\<open>EEXIST\<close> when \<^verbatim>\<open>newname\<close> exists
  (whatever it is), never overwrites.
\<close>

definition os_Symlink :: "path \<Rightarrow> path \<times> string \<Rightarrow> world \<Rightarrow> error + world" where
  "os_Symlink oldname p w =
     (case map_of (dirs w) (fst p) of
        None \<Rightarrow> Inl (LinkError ''symlink'' oldname (join p) ENOENT)
      | Some es \<Rightarrow>
          (case map_of es (snd p) of
             Some nd \<Rightarrow> Inl (LinkError ''symlink'' oldname (join p) EEXIST)
           | None \<Rightarrow>
               Inr (w\<lparr>dirs := AList.update (fst p) (es @ [(snd p, Symlink oldname)]) (dirs w)\<rparr>)))"

text \<open>\<^verbatim>\<open>os.Remove\<close>: unlinks the entry whatever its kind; \<^verbatim>\<open>ENOENT\<close> when it is absent.\<close>

definition os_Remove :: "path \<times> string \<Rightarrow> world \<Rightarrow> error + world" where
  "os_Remove p w =
     (case map_of (dirs w) (fst p) of
        None \<Rightarrow> Inl (PathError ''remove'' (join p) ENOENT)
      | Some es \<Rightarrow>
          (case map_of es (snd p) of
             None \<Rightarrow> Inl (PathError ''remove'' (join p) ENOENT)
           | Some nd \<Rightarrow>
               Inr (w\<lparr>dirs := AList.update (fst p) (AList.delete (snd p) es) (dirs w)\<rparr>)))"

text \<open>
  The entries on which the operating system refuses \<^verbatim>\<open>Lstat\<close>, and those it refuses to
  remove, and the two calls under such refusals.
\<close>

record faults =
  lstat_refused :: "path \<times> string \<Rightarrow> bool"
  remove_refused :: "path \<times> string \<Rightarrow> bool"

definition no_faults :: faults where
  "no_faults = \<lparr>lstat_refused = (\<lambda>p. False), remove_refused = (\<lambda>p. False)\<rparr>"

definition os_Lstat_in :: "faults \<Rightarrow> path \<times> string \<Rightarrow> world \<Rightarrow> error + FileInfo" where
  "os_Lstat_in fl p w =
     (if lstat_refused fl p then Inl (PathError ''lstat'' (join p) EACCES) else os_Lstat p w)"

definition os_Remove_in :: "faults \<Rightarrow> path \<times> string \<Rightarrow> world \<Rightarrow> error + world" where
  "os_Remove_in fl p w =
     (if remove_refused fl p then Inl (PathError ''remove'' (join p) EACCES) else os_Remove p w)"

text \<open>The entry of a directory under a name, as a lookup: \<open>None\<close> when there is none.\<close>

definition entry :: "world \<Rightarrow> path \<Rightarrow> string \<Rightarrow> node option" where
  "entry w d n = (case map_of (dirs w) d of None \<Rightarrow> None | Some es \<Rightarrow> map_of es n)"

definition is_dir :: "world \<Rightarrow> path \<Rightarrow> bool" where
  "is_dir w d = (map_of (dirs w) d \<noteq> None)"

subsection \<open>Notifications\<close>

text \<open>
  \<^verbatim>\<open>fsnotify.FileEvent\<close>: the program reads the field \<^verbatim>\<open>Name\<close> and asks \<^verbatim>\<open>IsCreate()\<close>
  and \<^verbatim>\<open>IsDelete()\<close>, two independent tests of the event.
\<close>

record FileEvent =
  Name :: path
  IsCreate :: bool
  IsDelete :: bool

record Directory =
  Path :: path

record UpdateHeader =
  Event :: FileEvent
  Origin :: Directory

text \<open>
  fsEvent forwards every event of a directory's watcher on the channel \<^verbatim>\<open>Update\<close> as
  \<^verbatim>\<open>UpdateHeader{Event: *ev, Path: d}\<close>, whatever its kind.
\<close>

definition fsEvent :: "Directory \<Rightarrow> FileEvent \<Rightarrow> UpdateHeader" where
  "fsEvent d ev = \<lparr>Event = ev, Origin = d\<rparr>"

section \<open>The Link Synchronizer: UpdateDirs\<close>

text \<open>
  The function returns the error (\<open>None\<close> for \<^verbatim>\<open>nil\<close>) and the world it leaves. The
  two tests are two \<^verbatim>\<open>if\<close> statements in sequence; a failed call logs the error and
  returns at once.
\<close>

definition UpdateDirs :: "path \<Rightarrow> UpdateHeader \<Rightarrow> world \<Rightarrow> error option \<times> world" where
  "UpdateDirs dist updated w =
     (let name = Name (Event updated);
          created =
            (if IsCreate (Event updated) then
               (case os_Symlink name (dist, Base name) w of
                  Inl err \<Rightarrow> (Some err, log_Println (Error err) w)
                | Inr w1 \<Rightarrow> (None, log_Println (''Updated link: '' @ name) w1))
             else (None, w))
      in case created of
           (Some err, w') \<Rightarrow> (Some err, w')
         | (None, w') \<Rightarrow>
             (if IsDelete (Event updated) then
                (case os_Remove (dist, Base name) w' of
                   Inl err \<Rightarrow> (Some err, log_Println (Error err) w')
                 | Inr w2 \<Rightarrow>
                     (None, log_Println (''Delete link: '' @ dist @ ''/'' @ Base name) w2))
              else (None, w')))"

text \<open>
  The router starts every UpdateDirs with \<^verbatim>\<open>go\<close> and drops what it returns. A call
  for a creation or for a deletion makes one system call on the destination, so running
  the started calls in some order is folding them over the world.
\<close>

definition process_updates :: "path \<Rightarrow> UpdateHeader list \<Rightarrow> world \<Rightarrow> world" where
  "process_updates dist us w = fold (\<lambda>u w'. snd (UpdateDirs dist u w')) us w"

section \<open>The Reconciler: cleanDirs\<close>

text \<open>
  The first loop lists every source directory and fills the map \<^verbatim>\<open>filenames\<close>
  (name to source path); the first listing that fails is returned.
\<close>

fun collect_filenames ::
  "Directory list \<Rightarrow> world \<Rightarrow> (string \<rightharpoonup> path) \<Rightarrow> error + (string \<rightharpoonup> path)" where
  "collect_filenames [] w filenames = Inr filenames"
| "collect_filenames (source # sources) w filenames =
     (case ioutil_ReadDir (Path source) w of
        Inl err \<Rightarrow> Inl err
      | Inr files \<Rightarrow>
          collect_filenames sources w
            (fold (\<lambda>f m. m(f \<mapsto> Path source)) files filenames))"

text \<open>
  The second loop runs over the names listed in the destination: \<^verbatim>\<open>Lstat\<close>, the test
  of the symlink bit, \<^verbatim>\<open>EvalSymlinks\<close>, and on its failure the log line and
  \<^verbatim>\<open>Remove\<close>. Every error return stops the loop with the world as it is then. The
  parameter \<open>fl\<close> gives the entries on which the operating system refuses the two calls.
\<close>

fun prune_links_in ::
  "faults \<Rightarrow> path \<Rightarrow> string list \<Rightarrow> world \<Rightarrow> error option \<times> world" where
  "prune_links_in fl target [] w = (None, w)"
| "prune_links_in fl target (f # files) w =
     (case os_Lstat_in fl (target, f) w of
        Inl err \<Rightarrow> (Some err, w)
      | Inr info \<Rightarrow>
          if Mode info AND ModeSymlink = ModeSymlink then
            (case filepath_EvalSymlinks (target, f) w of
               Inr resolved \<Rightarrow> prune_links_in fl target files w
             | Inl err1 \<Rightarrow>
                 (let w1 = log_Println (''Unresolved link: '' @ target @ ''/'' @ f @ ''. Deleted'') w
                  in case os_Remove_in fl (target, f) w1 of
                       Inl err \<Rightarrow> (Some err, w1)
                     | Inr w2 \<Rightarrow> prune_links_in fl target files w2))
          else prune_links_in fl target files w)"

definition cleanDirs_in ::
  "faults \<Rightarrow> Directory list \<Rightarrow> path \<Rightarrow> world \<Rightarrow> error option \<times> world" where
  "cleanDirs_in fl sources target w =
     (case collect_filenames sources w Map.empty of
        Inl err \<Rightarrow> (Some err, w)
      | Inr filenames \<Rightarrow>
          (case ioutil_ReadDir target w of
             Inl err \<Rightarrow> (Some err, w)
           | Inr files \<Rightarrow> prune_links_in fl target files w))"

text \<open>cleanDirs where the operating system refuses nothing.\<close>

definition cleanDirs :: "Directory list \<Rightarrow> path \<Rightarrow> world \<Rightarrow> error option \<times> world" where
  "cleanDirs sources target w = cleanDirs_in no_faults sources target w"

text \<open>A node that the reconciler removes: a symbolic link whose target does not resolve.\<close>

definition dangling :: "world \<Rightarrow> node \<Rightarrow> bool" where
  "dangling w nd = (case nd of RegularFile \<Rightarrow> False | Symlink t \<Rightarrow> \<not> resolves w t)"

text \<open>
  A world whose resolving paths are those of its own entries: the path of a regular file
  resolves, the path of a link resolves when its target does, and no other path does.
\<close>

definition coherent :: "world \<Rightarrow> bool" where
  "coherent w =
     ((\<forall>d n nd. entry w d n = Some nd \<longrightarrow> resolves w (join (d, n)) = (\<not> dangling w nd))
      \<and> (\<forall>t. resolves w t \<longrightarrow> (\<exists>d n. t = join (d, n) \<and> entry w d n \<noteq> None)))"

section \<open>Startup and the Event Router: main\<close>

text \<open>\<^verbatim>\<open>strings.Split(s, ",")\<close>: the pieces between commas; one piece for a string without comma.\<close>

fun strings_Split :: "string \<Rightarrow> string list" where
  "strings_Split [] = [[]]"
| "strings_Split (c # cs) =
     (if c = CHR '','' then [] # strings_Split cs
      else (case strings_Split cs of
              [] \<Rightarrow> [[c]]
            | x # xs \<Rightarrow> (c # x) # xs))"

text \<open>
  The state of the router goroutine: the counter \<^verbatim>\<open>exitCnt\<close>, the slice
  \<^verbatim>\<open>manageDirs\<close>, the number of values it has sent on the channel \<^verbatim>\<open>WatcherQuit\<close>
  (one channel shared by all directories) and the UpdateDirs calls it has started.
\<close>

record router =
  exitCnt :: int
  manageDirs :: "Directory list"
  watcherQuit :: nat
  spawned :: "UpdateHeader list"

text \<open>What the \<^verbatim>\<open>select\<close> receives: from \<^verbatim>\<open>chanQuit\<close>, \<^verbatim>\<open>chanUpdate\<close> or \<^verbatim>\<open>chanExit\<close>.\<close>

datatype msg = FromQuit | FromUpdate UpdateHeader | FromExit

fun router_select :: "msg \<Rightarrow> router \<Rightarrow> router" where
  "router_select FromQuit r =
     fold (\<lambda>dir r'. r'\<lparr>watcherQuit := Suc (watcherQuit r')\<rparr>) (manageDirs r) r"
| "router_select (FromUpdate fileUpdate) r = r\<lparr>spawned := spawned r @ [fileUpdate]\<rparr>"
| "router_select FromExit r = r\<lparr>exitCnt := exitCnt r - 1\<rparr>"

text \<open>
  The loop \<^verbatim>\<open>for { select {...}; if exitCnt == 0 { return } }\<close> over the messages that
  arrive: \<open>(True, r)\<close> when the goroutine has returned, \<open>(False, r)\<close> when it is
  blocked in \<^verbatim>\<open>select\<close> with nothing more to receive.
\<close>

fun router_loop :: "msg list \<Rightarrow> router \<Rightarrow> bool \<times> router" where
  "router_loop [] r = (False, r)"
| "router_loop (m # ms) r =
     (let r' = router_select m r
      in if exitCnt r' = 0 then (True, r') else router_loop ms r')"

text \<open>
  main from the split of \<^verbatim>\<open>-s\<close> to the start of the router (the goroutines of the
  watch sessions, started in between, run beside it and are not part of this
  function): \<^verbatim>\<open>os.Exit(1)\<close> on missing arguments, \<^verbatim>\<open>log.Fatalln\<close> (a log line, then exit status 1) when cleanDirs
  fails, otherwise the router starts with \<^verbatim>\<open>exitCnt = len(manageDirs)\<close>.
\<close>

datatype startup = Exited int world | Serving router world

definition main_startup_in :: "faults \<Rightarrow> string \<Rightarrow> path \<Rightarrow> world \<Rightarrow> startup" where
  "main_startup_in fl source distanation w =
     (let ds = strings_Split source
      in if length ds = 0 \<or> length distanation = 0 then Exited 1 w
         else
           let mds = map (\<lambda>dir. \<lparr>Path = dir\<rparr>) ds;
               w1 = log_Println ''Starting pre-cleaner process'' w
           in case cleanDirs_in fl mds distanation w1 of
                (Some err, w2) \<Rightarrow>
                  Exited 1 (log_Println (''First clean dirs was corrapted: '' @ Error err) w2)
              | (None, w2) \<Rightarrow>
                  Serving \<lparr>exitCnt = int (length mds), manageDirs = mds,
                           watcherQuit = 0, spawned = []\<rparr> w2)"

text \<open>Startup where the operating system refuses nothing.\<close>

definition main_startup :: "string \<Rightarrow> path \<Rightarrow> world \<Rightarrow> startup" where
  "main_startup source distanation w = main_startup_in no_faults source distanation w"

section \<open>Signals and watch sessions\<close>

text \<open>
  InitFSWatch after its setup: blocked on \<^verbatim>\<open><-d.WatcherQuit\<close>, then at
  \<^verbatim>\<open>d.Exit <- true\<close>, then at \<^verbatim>\<open>d.fileWatcher.Close()\<close>, then returned.
\<close>

datatype session = AwaitQuit | SendExit | CloseWatcher | Returned

text \<open>
  One step of a session: the receive from \<^verbatim>\<open>WatcherQuit\<close>, the send on \<^verbatim>\<open>Exit\<close>, the
  release of the watch handle. \<open>Returned\<close> is the terminal state.
\<close>

fun InitFSWatch_step :: "session \<Rightarrow> session" where
  "InitFSWatch_step AwaitQuit = SendExit"
| "InitFSWatch_step SendExit = CloseWatcher"
| "InitFSWatch_step CloseWatcher = Returned"
| "InitFSWatch_step Returned = Returned"

datatype signal = SIGTERM | SIGHUP

record process =
  sessions :: "session list"
  quit_sent :: nat
  exit_status :: "int option"
  signal_log :: "string list"

fun signal_String :: "signal \<Rightarrow> string" where
  "signal_String SIGTERM = ''terminated''"
| "signal_String SIGHUP = ''hangup''"

text \<open>
  The signal handler of main: it logs the signal and, on \<^verbatim>\<open>SIGTERM\<close>, calls
  \<^verbatim>\<open>os.Exit(0)\<close>; it sends nothing on \<^verbatim>\<open>chanQuit\<close> (\<open>quit_sent\<close> counts such sends)
  and does not touch the sessions.
\<close>

definition handler :: "signal \<Rightarrow> process \<Rightarrow> process" where
  "handler sig p =
     (let p1 = p\<lparr>signal_log := signal_log p @ [''signal: '' @ signal_String sig]\<rparr>
      in if sig = SIGTERM then p1\<lparr>exit_status := Some 0\<rparr> else p1)"

section \<open>Sample inputs\<close>

definition create_event :: "path \<Rightarrow> FileEvent" where
  "create_event f = \<lparr>Name = f, IsCreate = True, IsDelete = False\<rparr>"

definition delete_event :: "path \<Rightarrow> FileEvent" where
  "delete_event f = \<lparr>Name = f, IsCreate = False, IsDelete = True\<rparr>"

definition modify_event :: "path \<Rightarrow> FileEvent" where
  "modify_event f = \<lparr>Name = f, IsCreate = False, IsDelete = False\<rparr>"

text \<open>
  Sources \<^verbatim>\<open>/A = {x.txt}\<close> and \<^verbatim>\<open>/B = {y.txt}\<close>, destination
  \<^verbatim>\<open>/D = {stale -> /gone, keep -> /A/x.txt, note}\<close>; the paths that resolve are those
  of the two source files, of \<^verbatim>\<open>note\<close> and of \<^verbatim>\<open>keep\<close>.
\<close>

definition sample_world :: world where
  "sample_world =
     \<lparr>dirs = [(''/A'', [(''x.txt'', RegularFile)]),
              (''/B'', [(''y.txt'', RegularFile)]),
              (''/D'', [(''stale'', Symlink ''/gone''),
                       (''keep'', Symlink ''/A/x.txt''),
                       (''note'', RegularFile)])],
      resolves = (\<lambda>t. t = ''/A/x.txt'' \<or> t = ''/B/y.txt'' \<or> t = ''/D/keep'' \<or> t = ''/D/note''),
      logged = []\<rparr>"

text \<open>
  The same destination after \<^verbatim>\<open>/A/x.txt\<close> has been deleted: \<^verbatim>\<open>/A\<close> is empty and
  \<^verbatim>\<open>/A/x.txt\<close> resolves no more.
\<close>

definition x_deleted_world :: world where
  "x_deleted_world =
     \<lparr>dirs = [(''/A'', []),
              (''/B'', [(''y.txt'', RegularFile)]),
              (''/D'', [(''stale'', Symlink ''/gone''),
                       (''keep'', Symlink ''/A/x.txt''),
                       (''note'', RegularFile)])],
      resolves = (\<lambda>t. t = ''/B/y.txt'' \<or> t = ''/D/note''),
      logged = []\<rparr>"

text \<open>
  The same destination with other files beside \<^verbatim>\<open>/A/x.txt\<close>: sources
  \<^verbatim>\<open>/A = {x.txt, z.txt}\<close> and \<^verbatim>\<open>/C = {stale}\<close>, no \<^verbatim>\<open>/B\<close>.
\<close>

definition more_files_world :: world where
  "more_files_world =
     \<lparr>dirs = [(''/A'', [(''x.txt'', RegularFile), (''z.txt'', RegularFile)]),
              (''/C'', [(''stale'', RegularFile)]),
              (''/D'', [(''stale'', Symlink ''/gone''),
                       (''keep'', Symlink ''/A/x.txt''),
                       (''note'', RegularFile)])],
      resolves = (\<lambda>t. t = ''/A/x.txt'' \<or> t = ''/A/z.txt'' \<or> t = ''/C/stale''
                        \<or> t = ''/D/keep'' \<or> t = ''/D/note''),
      logged = []\<rparr>"

text \<open>The operating system refuses to remove \<^verbatim>\<open>/D/stale\<close>.\<close>

definition stale_locked :: faults where
  "stale_locked =
     \<lparr>lstat_refused = (\<lambda>p. False), remove_refused = (\<lambda>p. p = (''/D'', ''stale''))\<rparr>"

text \<open>Sources \<^verbatim>\<open>/A = {dup.txt}\<close> and \<^verbatim>\<open>/B = {dup.txt}\<close>, an empty destination.\<close>

definition empty_dest_world :: world where
  "empty_dest_world =
     \<lparr>dirs = [(''/A'', [(''dup.txt'', RegularFile)]),
              (''/B'', [(''dup.txt'', RegularFile)]),
              (''/D'', [])],
      resolves = (\<lambda>t. t = ''/A/dup.txt'' \<or> t = ''/B/dup.txt''),
      logged = []\<rparr>"

text \<open>A daemon with two watch sessions blocked on their quit channel.\<close>

definition watching_process :: process where
  "watching_process =
     \<lparr>sessions = [AwaitQuit, AwaitQuit], quit_sent = 0, exit_status = None, signal_log = []\<rparr>"

section \<open>Facts about the system calls\<close>

lemma entry_log_Println [simp]: "entry (log_Println s w) d n = entry w d n"
  by (simp add: entry_def log_Println_def)

lemma dirs_log_Println [simp]: "dirs (log_Println s w) = dirs w"
  by (simp add: log_Println_def)

lemma logged_log_Println [simp]: "logged (log_Println s w) = logged w @ [s]"
  by (simp add: log_Println_def)

lemma ReadDir_log_Println [simp]: "ioutil_ReadDir d (log_Println s w) = ioutil_ReadDir d w"
  by (simp add: ioutil_ReadDir_def)

lemma os_Symlink_exists:
  "is_dir w d \<Longrightarrow> entry w d n \<noteq> None \<Longrightarrow>
   os_Symlink old (d, n) w = Inl (LinkError ''symlink'' old (join (d, n)) EEXIST)"
  by (auto simp: os_Symlink_def is_dir_def entry_def split: option.splits)

lemma os_Symlink_fresh:
  assumes "is_dir w d" "entry w d n = None"
  shows "\<exists>w'. os_Symlink old (d, n) w = Inr w'
     \<and> (\<forall>d' n'. entry w' d' n' = (if d' = d \<and> n' = n then Some (Symlink old) else entry w d' n'))
     \<and> (\<forall>d'. is_dir w' d' = is_dir w d')
     \<and> logged w' = logged w \<and> resolves w' = resolves w"
  using assms
  by (auto simp: os_Symlink_def is_dir_def entry_def update_conv' map_add_def split: option.splits)

lemma os_Remove_absent:
  "entry w d n = None \<Longrightarrow>
   os_Remove (d, n) w = Inl (PathError ''remove'' (join (d, n)) ENOENT)"
  by (auto simp: os_Remove_def entry_def split: option.splits)

lemma os_Remove_present:
  assumes "entry w d n \<noteq> None"
  shows "\<exists>w'. os_Remove (d, n) w = Inr w'
     \<and> (\<forall>d' n'. entry w' d' n' = (if d' = d \<and> n' = n then None else entry w d' n'))
     \<and> (\<forall>d'. is_dir w' d' = is_dir w d')
     \<and> logged w' = logged w \<and> resolves w' = resolves w"
  using assms
  by (auto simp: os_Remove_def is_dir_def entry_def update_conv' delete_conv' split: option.splits)

lemma symlink_bit: "(node_Mode nd AND ModeSymlink = ModeSymlink) = (\<exists>t. nd = Symlink t)"
  by (cases nd) (simp_all add: ModeSymlink_def)

lemma strings_Split_nonempty: "strings_Split s \<noteq> []"
  by (induction s) (auto split: list.splits)

lemma keys_delete: "fst ` set (AList.delete k al) = fst ` set al - {k}"
  by (induct al) auto

lemma filter_delete: "filter Q (AList.delete k al) = filter (\<lambda>p. fst p \<noteq> k \<and> Q p) al"
  by (induct al) auto

section \<open>Facts about the reconciliation loop\<close>

lemma dangling_cong: "resolves v = resolves w \<Longrightarrow> dangling v = dangling w"
  by (intro ext) (simp add: dangling_def split: node.splits)

lemma prune_links_in_ok:
  assumes "map_of (dirs w) target = Some es" "distinct ns" "set ns \<subseteq> fst ` set es"
    and "\<forall>f\<in>set ns. \<not> lstat_refused fl (target, f)
           \<and> (\<forall>nd. map_of es f = Some nd \<and> dangling w nd \<longrightarrow> \<not> remove_refused fl (target, f))"
  shows "\<exists>w'. prune_links_in fl target ns w = (None, w')
     \<and> dirs w' = AList.update target
          (filter (\<lambda>p. \<not> (fst p \<in> set ns \<and> (\<exists>nd. map_of es (fst p) = Some nd \<and> dangling w nd))) es) (dirs w)
     \<and> resolves w' = resolves w"
  using assms
proof (induction ns arbitrary: w es)
  case Nil
  then show ?case by (simp add: update_triv)
next
  case (Cons f fs)
  have "map_of es f \<noteq> None"
    using Cons.prems(3) by (simp add: map_of_eq_None_iff)
  then obtain nd where nd: "map_of es f = Some nd"
    by auto
  have lst: "os_Lstat_in fl (target, f) w = Inr \<lparr>Name_of = f, Mode = node_Mode nd\<rparr>"
    using Cons.prems(1,4) nd by (simp add: os_Lstat_in_def os_Lstat_def)
  show ?case
  proof (cases "dangling w nd")
    case False
    then have step: "prune_links_in fl target (f # fs) w = prune_links_in fl target fs w"
      using lst Cons.prems(1) nd
      by (cases nd) (auto simp: symlink_bit dangling_def filepath_EvalSymlinks_def ModeSymlink_def)
    from Cons.prems have "distinct fs" "set fs \<subseteq> fst ` set es"
      "\<forall>g\<in>set fs. \<not> lstat_refused fl (target, g)
           \<and> (\<forall>nd. map_of es g = Some nd \<and> dangling w nd \<longrightarrow> \<not> remove_refused fl (target, g))"
      by auto
    from Cons.IH [OF Cons.prems(1) this] obtain w' where
      w': "prune_links_in fl target fs w = (None, w')"
        "dirs w' = AList.update target
          (filter (\<lambda>p. \<not> (fst p \<in> set fs \<and> (\<exists>nd. map_of es (fst p) = Some nd \<and> dangling w nd))) es) (dirs w)"
        "resolves w' = resolves w" by blast
    have "filter (\<lambda>p. \<not> (fst p \<in> set fs \<and> (\<exists>nd. map_of es (fst p) = Some nd \<and> dangling w nd))) es
        = filter (\<lambda>p. \<not> (fst p \<in> set (f # fs) \<and> (\<exists>nd. map_of es (fst p) = Some nd \<and> dangling w nd))) es"
      using False nd by (intro filter_cong) auto
    with w' step show ?thesis by simp
  next
    case True
    then obtain t where t: "nd = Symlink t" "\<not> resolves w t"
      by (cases nd) (auto simp: dangling_def)
    define w1 where "w1 = log_Println (''Unresolved link: '' @ target @ ''/'' @ f @ ''. Deleted'') w"
    define w2 where "w2 = w1\<lparr>dirs := AList.update target (AList.delete f es) (dirs w1)\<rparr>"
    have "\<not> remove_refused fl (target, f)"
      using Cons.prems(4) nd True by simp
    then have rm: "os_Remove_in fl (target, f) w1 = Inr w2"
      using Cons.prems(1) nd by (simp add: os_Remove_in_def os_Remove_def w1_def w2_def)
    have step: "prune_links_in fl target (f # fs) w = prune_links_in fl target fs w2"
      using lst Cons.prems(1) nd t rm [unfolded w1_def]
      by (simp add: symlink_bit filepath_EvalSymlinks_def ModeSymlink_def)
    have d2: "map_of (dirs w2) target = Some (AList.delete f es)"
      by (simp add: w2_def update_conv')
    have r2: "resolves w2 = resolves w" by (simp add: w2_def w1_def log_Println_def)
    then have dg: "dangling w2 = dangling w" by (rule dangling_cong)
    from Cons.prems have "distinct fs" "set fs \<subseteq> fst ` set (AList.delete f es)"
      "\<forall>g\<in>set fs. \<not> lstat_refused fl (target, g)
           \<and> (\<forall>nd. map_of (AList.delete f es) g = Some nd \<and> dangling w2 nd
                 \<longrightarrow> \<not> remove_refused fl (target, g))"
      by (auto simp: keys_delete dg delete_conv' split: if_splits)
    from Cons.IH [OF d2 this] obtain w' where
      w': "prune_links_in fl target fs w2 = (None, w')"
        "dirs w' = AList.update target
          (filter (\<lambda>p. \<not> (fst p \<in> set fs \<and> (\<exists>nd. map_of (AList.delete f es) (fst p) = Some nd \<and> dangling w2 nd)))
             (AList.delete f es)) (dirs w2)"
        "resolves w' = resolves w2" by blast
    have "filter (\<lambda>p. \<not> (fst p \<in> set fs \<and> (\<exists>nd. map_of (AList.delete f es) (fst p) = Some nd \<and> dangling w2 nd)))
             (AList.delete f es)
        = filter (\<lambda>p. \<not> (fst p \<in> set (f # fs) \<and> (\<exists>nd. map_of es (fst p) = Some nd \<and> dangling w nd))) es"
      unfolding filter_delete using True nd
      by (intro filter_cong refl) (auto simp: dg delete_conv' split: if_splits)
    moreover have "AList.update target X (dirs w2) = AList.update target X (dirs w)" for X
      by (simp add: w2_def w1_def)
    ultimately show ?thesis using w' step r2 by simp
  qed
qed

lemma prune_links_in_fails:
  assumes "map_of (dirs w) target = Some es" "distinct ns" "set ns \<subseteq> fst ` set es"
    and "\<exists>f\<in>set ns. lstat_refused fl (target, f)
           \<or> (\<exists>nd. map_of es f = Some nd \<and> dangling w nd \<and> remove_refused fl (target, f))"
  shows "fst (prune_links_in fl target ns w) \<noteq> None"
  using assms
proof (induction ns arbitrary: w es)
  case Nil
  then show ?case by simp
next
  case (Cons f fs)
  let ?hit = "\<lambda>v ds g. lstat_refused fl (target, g)
      \<or> (\<exists>nd. map_of ds g = Some nd \<and> dangling v nd \<and> remove_refused fl (target, g))"
  show ?case
  proof (cases "lstat_refused fl (target, f)")
    case True
    then show ?thesis by (simp add: os_Lstat_in_def)
  next
    case open_f: False
    have "map_of es f \<noteq> None"
      using Cons.prems(3) by (simp add: map_of_eq_None_iff)
    then obtain nd where nd: "map_of es f = Some nd"
      by auto
    have lst: "os_Lstat_in fl (target, f) w = Inr \<lparr>Name_of = f, Mode = node_Mode nd\<rparr>"
      using Cons.prems(1) open_f nd by (simp add: os_Lstat_in_def os_Lstat_def)
    show ?thesis
    proof (cases "dangling w nd")
      case False
      then have step: "prune_links_in fl target (f # fs) w = prune_links_in fl target fs w"
        using lst Cons.prems(1) nd
        by (cases nd) (auto simp: symlink_bit dangling_def filepath_EvalSymlinks_def ModeSymlink_def)
      from Cons.prems(4) open_f False nd have "\<exists>g\<in>set fs. ?hit w es g"
        by auto
      moreover from Cons.prems have "distinct fs" "set fs \<subseteq> fst ` set es" by auto
      ultimately show ?thesis
        using Cons.IH [OF Cons.prems(1)] step by simp
    next
      case True
      then obtain t where t: "nd = Symlink t" "\<not> resolves w t"
        by (cases nd) (auto simp: dangling_def)
      show ?thesis
      proof (cases "remove_refused fl (target, f)")
        case True
        then show ?thesis
          using lst Cons.prems(1) nd t
          by (simp add: symlink_bit filepath_EvalSymlinks_def ModeSymlink_def os_Remove_in_def)
      next
        case False
        define w1 where "w1 = log_Println (''Unresolved link: '' @ target @ ''/'' @ f @ ''. Deleted'') w"
        define w2 where "w2 = w1\<lparr>dirs := AList.update target (AList.delete f es) (dirs w1)\<rparr>"
        have rm: "os_Remove_in fl (target, f) w1 = Inr w2"
          using False Cons.prems(1) nd by (simp add: os_Remove_in_def os_Remove_def w1_def w2_def)
        have step: "prune_links_in fl target (f # fs) w = prune_links_in fl target fs w2"
          using lst Cons.prems(1) nd t rm [unfolded w1_def]
          by (simp add: symlink_bit filepath_EvalSymlinks_def ModeSymlink_def)
        have d2: "map_of (dirs w2) target = Some (AList.delete f es)"
          by (simp add: w2_def update_conv')
        have "resolves w2 = resolves w" by (simp add: w2_def w1_def log_Println_def)
        then have dg: "dangling w2 = dangling w" by (rule dangling_cong)
        from Cons.prems(4) open_f False obtain g where
          g: "g \<in> set fs" "?hit w es g" by auto
        with Cons.prems(2) have "g \<noteq> f" by auto
        with g have "\<exists>g\<in>set fs. ?hit w2 (AList.delete f es) g"
          by (auto simp: dg delete_conv')
        moreover from Cons.prems have "distinct fs" "set fs \<subseteq> fst ` set (AList.delete f es)"
          by (auto simp: keys_delete)
        ultimately show ?thesis
          using Cons.IH [OF d2] step by simp
      qed
    qed
  qed
qed


lemma ReadDir_isl: "isl (ioutil_ReadDir d w) = (\<not> is_dir w d)"
  by (simp add: ioutil_ReadDir_def is_dir_def split: option.splits)

lemma collect_filenames_isl:
  "isl (collect_filenames sources w m) = (\<exists>s\<in>set sources. isl (ioutil_ReadDir (Path s) w))"
  by (induction sources arbitrary: m) (auto split: sum.splits)

lemma cleanDirs_in_listed:
  assumes "\<forall>s\<in>set sources. \<not> isl (ioutil_ReadDir (Path s) w)"
    and "map_of (dirs w) target = Some es"
  shows "cleanDirs_in fl sources target w =
     prune_links_in fl target (sort (remdups (map fst es))) w"
proof -
  have "\<not> isl (collect_filenames sources w Map.empty)"
    using assms(1) by (simp add: collect_filenames_isl)
  then obtain m where "collect_filenames sources w Map.empty = Inr m"
    by (cases "collect_filenames sources w Map.empty") auto
  then show ?thesis
    using assms(2) by (simp add: cleanDirs_in_def ioutil_ReadDir_def)
qed

lemma cleanDirs_in_unlisted:
  assumes "(\<exists>s\<in>set sources. isl (ioutil_ReadDir (Path s) w)) \<or> isl (ioutil_ReadDir target w)"
  shows "\<exists>err. cleanDirs_in fl sources target w = (Some err, w)"
proof (cases "collect_filenames sources w Map.empty")
  case (Inl e)
  then show ?thesis by (simp add: cleanDirs_in_def)
next
  case (Inr m)
  then have "\<not> isl (collect_filenames sources w Map.empty)" by simp
  with assms have "isl (ioutil_ReadDir target w)"
    by (simp add: collect_filenames_isl)
  then obtain e where "ioutil_ReadDir target w = Inl e"
    by (cases "ioutil_ReadDir target w") auto
  with Inr show ?thesis by (simp add: cleanDirs_in_def)
qed

lemma cleanDirs_result:
  assumes "\<forall>s\<in>set sources. \<not> isl (ioutil_ReadDir (Path s) w)"
    and "map_of (dirs w) target = Some es"
  shows "\<exists>w'. cleanDirs sources target w = (None, w')
     \<and> dirs w' = AList.update target
          (filter (\<lambda>p. \<not> (\<exists>nd. map_of es (fst p) = Some nd \<and> dangling w nd)) es) (dirs w)
     \<and> resolves w' = resolves w"
proof -
  let ?ns = "sort (remdups (map fst es))"
  have "distinct ?ns" "set ?ns \<subseteq> fst ` set es"
    "\<forall>f\<in>set ?ns. \<not> lstat_refused no_faults (target, f)
       \<and> (\<forall>nd. map_of es f = Some nd \<and> dangling w nd \<longrightarrow> \<not> remove_refused no_faults (target, f))"
    by (auto simp: no_faults_def)
  from prune_links_in_ok [OF assms(2) this] obtain w' where
    w': "prune_links_in no_faults target ?ns w = (None, w')"
      "dirs w' = AList.update target
          (filter (\<lambda>p. \<not> (fst p \<in> set ?ns \<and> (\<exists>nd. map_of es (fst p) = Some nd \<and> dangling w nd))) es) (dirs w)"
      "resolves w' = resolves w" by blast
  have "filter (\<lambda>p. \<not> (fst p \<in> set ?ns \<and> (\<exists>nd. map_of es (fst p) = Some nd \<and> dangling w nd))) es
      = filter (\<lambda>p. \<not> (\<exists>nd. map_of es (fst p) = Some nd \<and> dangling w nd)) es"
    by (intro filter_cong refl) auto
  with w' cleanDirs_in_listed [OF assms, of no_faults] show ?thesis
    by (simp add: cleanDirs_def)
qed

lemma cleanDirs_fails:
  assumes "(\<exists>s\<in>set sources. isl (ioutil_ReadDir (Path s) w)) \<or> isl (ioutil_ReadDir target w)"
  shows "\<exists>err. cleanDirs sources target w = (Some err, w)"
  using cleanDirs_in_unlisted [OF assms, of no_faults] by (simp add: cleanDirs_def)

lemma cleanDirs_in_error_iff:
  "(fst (cleanDirs_in fl sources target w) \<noteq> None) =
     ((\<exists>s\<in>set sources. isl (ioutil_ReadDir (Path s) w)) \<or> isl (ioutil_ReadDir target w)
      \<or> (\<exists>f nd. entry w target f = Some nd
            \<and> (isl (os_Lstat_in fl (target, f) w)
                \<or> (dangling w nd \<and> isl (os_Remove_in fl (target, f) w)))))"
proof (cases "(\<exists>s\<in>set sources. isl (ioutil_ReadDir (Path s) w)) \<or> isl (ioutil_ReadDir target w)")
  case True
  with cleanDirs_in_unlisted [OF True, of fl] show ?thesis by auto
next
  case False
  then obtain es where es: "map_of (dirs w) target = Some es"
    by (auto simp: ReadDir_isl is_dir_def)
  let ?ns = "sort (remdups (map fst es))"
  let ?hit = "\<lambda>f. lstat_refused fl (target, f)
      \<or> (\<exists>nd. map_of es f = Some nd \<and> dangling w nd \<and> remove_refused fl (target, f))"
  have run: "cleanDirs_in fl sources target w = prune_links_in fl target ?ns w"
    using False es by (intro cleanDirs_in_listed) auto
  have ns: "distinct ?ns" "set ?ns \<subseteq> fst ` set es" by auto
  have calls: "(\<exists>f nd. entry w target f = Some nd
            \<and> (isl (os_Lstat_in fl (target, f) w)
                \<or> (dangling w nd \<and> isl (os_Remove_in fl (target, f) w))))
      = (\<exists>f\<in>set ?ns. ?hit f)"
  proof -
    have lk: "entry w target f = map_of es f" for f
      using es by (simp add: entry_def)
    have mem: "(f \<in> set ?ns) = (map_of es f \<noteq> None)" for f
      by (simp add: map_of_eq_None_iff)
    have l1: "isl (os_Lstat_in fl (target, f) w) = lstat_refused fl (target, f)"
      if "map_of es f = Some nd" for f nd
      using es that by (simp add: os_Lstat_in_def os_Lstat_def)
    have l2: "isl (os_Remove_in fl (target, f) w) = remove_refused fl (target, f)"
      if "map_of es f = Some nd" for f nd
      using es that by (simp add: os_Remove_in_def os_Remove_def)
    show ?thesis
      unfolding lk
    proof
      assume "\<exists>f nd. map_of es f = Some nd
            \<and> (isl (os_Lstat_in fl (target, f) w)
                \<or> (dangling w nd \<and> isl (os_Remove_in fl (target, f) w)))"
      then obtain f nd where "map_of es f = Some nd"
        "isl (os_Lstat_in fl (target, f) w)
           \<or> (dangling w nd \<and> isl (os_Remove_in fl (target, f) w))" by blast
      then have "f \<in> set ?ns" "?hit f"
        using l1 [of f nd] l2 [of f nd] by (auto simp: mem simp del: set_sort set_remdups)
      then show "\<exists>f\<in>set ?ns. ?hit f" by blast
    next
      assume "\<exists>f\<in>set ?ns. ?hit f"
      then obtain f where f: "f \<in> set ?ns" "?hit f" by blast
      then obtain nd where nd: "map_of es f = Some nd"
        using mem [of f] by auto
      with f(2) l1 [OF nd] l2 [OF nd]
      show "\<exists>f nd. map_of es f = Some nd
            \<and> (isl (os_Lstat_in fl (target, f) w)
                \<or> (dangling w nd \<and> isl (os_Remove_in fl (target, f) w)))"
        by auto
    qed
  qed
  show ?thesis
  proof (cases "\<exists>f\<in>set ?ns. ?hit f")
    case True
    from prune_links_in_fails [OF es ns True] True False show ?thesis
      unfolding calls run by simp
  next
    case none: False
    then have "\<forall>f\<in>set ?ns. \<not> lstat_refused fl (target, f)
       \<and> (\<forall>nd. map_of es f = Some nd \<and> dangling w nd \<longrightarrow> \<not> remove_refused fl (target, f))"
      by blast
    from prune_links_in_ok [OF es ns this] none False show ?thesis
      unfolding calls run by auto
  qed
qed

lemma main_startup_unfold:
  "main_startup source distanation w =
     (let ds = strings_Split source
      in if length ds = 0 \<or> length distanation = 0 then Exited 1 w
         else
           let mds = map (\<lambda>dir. \<lparr>Path = dir\<rparr>) ds;
               w1 = log_Println ''Starting pre-cleaner process'' w
           in case cleanDirs mds distanation w1 of
                (Some err, w2) \<Rightarrow>
                  Exited 1 (log_Println (''First clean dirs was corrapted: '' @ Error err) w2)
              | (None, w2) \<Rightarrow>
                  Serving \<lparr>exitCnt = int (length mds), manageDirs = mds,
                           watcherQuit = 0, spawned = []\<rparr> w2)"
  by (simp only: main_startup_def main_startup_in_def cleanDirs_def)

section \<open>The sample worlds are file systems\<close>

lemma sample_world_coherent: "coherent sample_world"
  unfolding coherent_def
proof (intro conjI allI impI)
  fix d n nd
  assume "entry sample_world d n = Some nd"
  then show "resolves sample_world (join (d, n)) = (\<not> dangling sample_world nd)"
    by (auto simp: entry_def sample_world_def join_def dangling_def split: if_splits)
next
  fix t
  assume "resolves sample_world t"
  then consider "t = join (''/A'', ''x.txt'')" | "t = join (''/B'', ''y.txt'')"
    | "t = join (''/D'', ''keep'')" | "t = join (''/D'', ''note'')"
    by (auto simp: sample_world_def join_def)
  then show "\<exists>d n. t = join (d, n) \<and> entry sample_world d n \<noteq> None"
  proof cases
    case 1
    moreover have "entry sample_world ''/A'' ''x.txt'' \<noteq> None"
      by (simp add: entry_def sample_world_def)
    ultimately show ?thesis by blast
  next
    case 2
    moreover have "entry sample_world ''/B'' ''y.txt'' \<noteq> None"
      by (simp add: entry_def sample_world_def)
    ultimately show ?thesis by blast
  next
    case 3
    moreover have "entry sample_world ''/D'' ''keep'' \<noteq> None"
      by (simp add: entry_def sample_world_def)
    ultimately show ?thesis by blast
  next
    case 4
    moreover have "entry sample_world ''/D'' ''note'' \<noteq> None"
      by (simp add: entry_def sample_world_def)
    ultimately show ?thesis by blast
  qed
qed

lemma x_deleted_world_coherent: "coherent x_deleted_world"
  unfolding coherent_def
proof (intro conjI allI impI)
  fix d n nd
  assume "entry x_deleted_world d n = Some nd"
  then show "resolves x_deleted_world (join (d, n)) = (\<not> dangling x_deleted_world nd)"
    by (auto simp: entry_def x_deleted_world_def join_def dangling_def split: if_splits)
next
  fix t
  assume "resolves x_deleted_world t"
  then consider "t = join (''/B'', ''y.txt'')" | "t = join (''/D'', ''note'')"
    by (auto simp: x_deleted_world_def join_def)
  then show "\<exists>d n. t = join (d, n) \<and> entry x_deleted_world d n \<noteq> None"
  proof cases
    case 1
    moreover have "entry x_deleted_world ''/B'' ''y.txt'' \<noteq> None"
      by (simp add: entry_def x_deleted_world_def)
    ultimately show ?thesis by blast
  next
    case 2
    moreover have "entry x_deleted_world ''/D'' ''note'' \<noteq> None"
      by (simp add: entry_def x_deleted_world_def)
    ultimately show ?thesis by blast
  qed
qed

lemma more_files_world_coherent: "coherent more_files_world"
  unfolding coherent_def
proof (intro conjI allI impI)
  fix d n nd
  assume "entry more_files_world d n = Some nd"
  then show "resolves more_files_world (join (d, n)) = (\<not> dangling more_files_world nd)"
    by (auto simp: entry_def more_files_world_def join_def dangling_def split: if_splits)
next
  fix t
  assume "resolves more_files_world t"
  then consider "t = join (''/A'', ''x.txt'')" | "t = join (''/A'', ''z.txt'')"
    | "t = join (''/C'', ''stale'')" | "t = join (''/D'', ''keep'')" | "t = join (''/D'', ''note'')"
    by (auto simp: more_files_world_def join_def)
  then show "\<exists>d n. t = join (d, n) \<and> entry more_files_world d n \<noteq> None"
  proof cases
    case 1
    moreover have "entry more_files_world ''/A'' ''x.txt'' \<noteq> None"
      by (simp add: entry_def more_files_world_def)
    ultimately show ?thesis by blast
  next
    case 2
    moreover have "entry more_files_world ''/A'' ''z.txt'' \<noteq> None"
      by (simp add: entry_def more_files_world_def)
    ultimately show ?thesis by blast
  next
    case 3
    moreover have "entry more_files_world ''/C'' ''stale'' \<noteq> None"
      by (simp add: entry_def more_files_world_def)
    ultimately show ?thesis by blast
  next
    case 4
    moreover have "entry more_files_world ''/D'' ''keep'' \<noteq> None"
      by (simp add: entry_def more_files_world_def)
    ultimately show ?thesis by blast
  next
    case 5
    moreover have "entry more_files_world ''/D'' ''note'' \<noteq> None"
      by (simp add: entry_def more_files_world_def)
    ultimately show ?thesis by blast
  qed
qed

lemma empty_dest_world_coherent: "coherent empty_dest_world"
  unfolding coherent_def
proof (intro conjI allI impI)
  fix d n nd
  assume "entry empty_dest_world d n = Some nd"
  then show "resolves empty_dest_world (join (d, n)) = (\<not> dangling empty_dest_world nd)"
    by (auto simp: entry_def empty_dest_world_def join_def dangling_def split: if_splits)
next
  fix t
  assume "resolves empty_dest_world t"
  then consider "t = join (''/A'', ''dup.txt'')" | "t = join (''/B'', ''dup.txt'')"
    by (auto simp: empty_dest_world_def join_def)
  then show "\<exists>d n. t = join (d, n) \<and> entry empty_dest_world d n \<noteq> None"
  proof cases
    case 1
    moreover have "entry empty_dest_world ''/A'' ''dup.txt'' \<noteq> None"
      by (simp add: entry_def empty_dest_world_def)
    ultimately show ?thesis by blast
  next
    case 2
    moreover have "entry empty_dest_world ''/B'' ''dup.txt'' \<noteq> None"
      by (simp add: entry_def empty_dest_world_def)
    ultimately show ?thesis by blast
  qed
qed

section \<open>Facts about UpdateDirs\<close>

lemma create_clash:
  assumes "IsCreate (Event updated)" and "is_dir w dist"
    and "entry w dist (Base (Name (Event updated))) \<noteq> None"
  shows "UpdateDirs dist updated w =
     (Some (LinkError ''symlink'' (Name (Event updated))
              (join (dist, Base (Name (Event updated)))) EEXIST),
      log_Println
        (Error (LinkError ''symlink'' (Name (Event updated))
                  (join (dist, Base (Name (Event updated)))) EEXIST)) w)"
  using assms(1) os_Symlink_exists [OF assms(2,3), of "Name (Event updated)"]
  by (simp add: UpdateDirs_def Let_def del: Error.simps)

lemma create_fresh:
  assumes "IsCreate (Event updated)" and "\<not> IsDelete (Event updated)" and "is_dir w dist"
    and "entry w dist (Base (Name (Event updated))) = None"
  shows "fst (UpdateDirs dist updated w) = None
     \<and> (\<forall>d n. entry (snd (UpdateDirs dist updated w)) d n =
           (if d = dist \<and> n = Base (Name (Event updated))
            then Some (Symlink (Name (Event updated))) else entry w d n))
     \<and> (\<forall>d. is_dir (snd (UpdateDirs dist updated w)) d = is_dir w d)"
proof -
  from os_Symlink_fresh [OF assms(3,4), of "Name (Event updated)"] obtain w1 where
    w1: "os_Symlink (Name (Event updated)) (dist, Base (Name (Event updated))) w = Inr w1"
      "\<And>d n. entry w1 d n =
         (if d = dist \<and> n = Base (Name (Event updated))
          then Some (Symlink (Name (Event updated))) else entry w d n)"
      "\<And>d. is_dir w1 d = is_dir w d"
    by blast
  have "UpdateDirs dist updated w =
      (None, log_Println (''Updated link: '' @ Name (Event updated)) w1)"
    using assms(1,2) w1(1) by (simp add: UpdateDirs_def Let_def)
  with w1(2,3) show ?thesis by (simp add: is_dir_def)
qed

section \<open>Properties of the Link Synchronizer\<close>

text \<open>
  C7. A notification that is neither a creation nor a deletion makes UpdateDirs return
  \<^verbatim>\<open>nil\<close> and leave the world, hence the destination directory and the log, exactly
  as it was.
\<close>

theorem UpdateDirs_other_kind_noop:
  "\<not> IsCreate (Event updated) \<Longrightarrow> \<not> IsDelete (Event updated) \<Longrightarrow>
   UpdateDirs dist updated w = (None, w)"
  by (simp add: UpdateDirs_def)

theorem UpdateDirs_other_kind_noop_witness:
  "\<not> IsCreate (Event (fsEvent \<lparr>Path = ''/A''\<rparr> (modify_event ''/A/x.txt'')))
   \<and> \<not> IsDelete (Event (fsEvent \<lparr>Path = ''/A''\<rparr> (modify_event ''/A/x.txt'')))
   \<and> UpdateDirs ''/D'' (fsEvent \<lparr>Path = ''/A''\<rparr> (modify_event ''/A/x.txt'')) sample_world
       = (None, sample_world)"
proof -
  let ?u = "fsEvent \<lparr>Path = ''/A''\<rparr> (modify_event ''/A/x.txt'')"
  have c: "\<not> IsCreate (Event ?u)"
    by (simp add: fsEvent_def modify_event_def)
  have d: "\<not> IsDelete (Event ?u)"
    by (simp add: fsEvent_def modify_event_def)
  show ?thesis
    using c d UpdateDirs_other_kind_noop [OF c d, of "''/D''" sample_world] by simp
qed

text \<open>
  C1. A creation notification for the file \<open>f = Name (Event updated)\<close> (the path under
  which the watcher reports the file: the source directory as given, a slash, the file
  name), with the destination an existing directory. If no entry is named \<open>Base f\<close>, UpdateDirs returns
  \<^verbatim>\<open>nil\<close>, the destination gains exactly the entry \<open>Base f\<close>, a symbolic link with
  target \<open>f\<close>, every other entry of every directory is as before, and one line is
  logged; the same notification issued again then fails with \<^verbatim>\<open>EEXIST\<close>, logs the
  error and changes nothing else. If an entry of that name exists, whatever it is, the
  call fails with \<^verbatim>\<open>EEXIST\<close> and the world differs from the old one by the logged error
  line only.
\<close>

theorem UpdateDirs_create:
  assumes "IsCreate (Event updated)" and "\<not> IsDelete (Event updated)" and "is_dir w dist"
  shows "(entry w dist (Base (Name (Event updated))) = None \<longrightarrow>
            fst (UpdateDirs dist updated w) = None
          \<and> (\<forall>d n. entry (snd (UpdateDirs dist updated w)) d n =
                (if d = dist \<and> n = Base (Name (Event updated))
                 then Some (Symlink (Name (Event updated))) else entry w d n))
          \<and> logged (snd (UpdateDirs dist updated w)) =
              logged w @ [''Updated link: '' @ Name (Event updated)]
          \<and> UpdateDirs dist updated (snd (UpdateDirs dist updated w)) =
              (Some (LinkError ''symlink'' (Name (Event updated))
                       (join (dist, Base (Name (Event updated)))) EEXIST),
               log_Println
                 (Error (LinkError ''symlink'' (Name (Event updated))
                           (join (dist, Base (Name (Event updated)))) EEXIST))
                 (snd (UpdateDirs dist updated w))))
       \<and> (entry w dist (Base (Name (Event updated))) \<noteq> None \<longrightarrow>
            UpdateDirs dist updated w =
              (Some (LinkError ''symlink'' (Name (Event updated))
                       (join (dist, Base (Name (Event updated)))) EEXIST),
               log_Println
                 (Error (LinkError ''symlink'' (Name (Event updated))
                           (join (dist, Base (Name (Event updated)))) EEXIST)) w))"
proof -
  let ?f = "Name (Event updated)"
  let ?b = "Base ?f"
  let ?err = "LinkError ''symlink'' ?f (join (dist, ?b)) EEXIST"
  have clash: "UpdateDirs dist updated v = (Some ?err, log_Println (Error ?err) v)"
    if "is_dir v dist" "entry v dist ?b \<noteq> None" for v
    using assms(1) os_Symlink_exists [OF that, of ?f]
    by (simp add: UpdateDirs_def Let_def del: Error.simps)
  have fresh: ?thesis if free: "entry w dist ?b = None"
  proof -
    from os_Symlink_fresh [OF assms(3) free, of ?f] obtain w1 where
      w1: "os_Symlink ?f (dist, ?b) w = Inr w1"
        "\<And>d n. entry w1 d n = (if d = dist \<and> n = ?b then Some (Symlink ?f) else entry w d n)"
        "\<And>d. is_dir w1 d = is_dir w d" "logged w1 = logged w"
      by blast
    have run: "UpdateDirs dist updated w = (None, log_Println (''Updated link: '' @ ?f) w1)"
      using assms(1,2) w1(1) by (simp add: UpdateDirs_def Let_def)
    let ?w' = "log_Println (''Updated link: '' @ ?f) w1"
    have "is_dir ?w' dist" using assms(3) w1(3) by (simp add: is_dir_def)
    moreover have "entry ?w' dist ?b \<noteq> None" using w1(2) by simp
    ultimately have "UpdateDirs dist updated ?w' = (Some ?err, log_Println (Error ?err) ?w')"
      by (rule clash)
    with run w1 free show ?thesis by (simp del: Error.simps)
  qed
  show ?thesis
  proof (cases "entry w dist ?b = None")
    case True
    then show ?thesis by (rule fresh)
  next
    case False
    with clash [OF assms(3)] show ?thesis by simp
  qed
qed

theorem UpdateDirs_create_witness:
  "IsCreate (Event (fsEvent \<lparr>Path = ''/A''\<rparr> (create_event ''/A/x.txt'')))
   \<and> \<not> IsDelete (Event (fsEvent \<lparr>Path = ''/A''\<rparr> (create_event ''/A/x.txt'')))
   \<and> is_dir sample_world ''/D''
   \<and> entry sample_world ''/D'' (Base ''/A/x.txt'') = None
   \<and> fst (UpdateDirs ''/D'' (fsEvent \<lparr>Path = ''/A''\<rparr> (create_event ''/A/x.txt'')) sample_world) = None
   \<and> entry (snd (UpdateDirs ''/D'' (fsEvent \<lparr>Path = ''/A''\<rparr> (create_event ''/A/x.txt'')) sample_world))
        ''/D'' ''x.txt'' = Some (Symlink ''/A/x.txt'')
   \<and> entry sample_world ''/D'' (Base ''/B/keep'') \<noteq> None
   \<and> fst (UpdateDirs ''/D'' (fsEvent \<lparr>Path = ''/B''\<rparr> (create_event ''/B/keep'')) sample_world)
        = Some (LinkError ''symlink'' ''/B/keep'' ''/D/keep'' EEXIST)
   \<and> dirs (snd (UpdateDirs ''/D'' (fsEvent \<lparr>Path = ''/B''\<rparr> (create_event ''/B/keep'')) sample_world))
        = dirs sample_world"
proof -
  let ?u = "fsEvent \<lparr>Path = ''/A''\<rparr> (create_event ''/A/x.txt'')"
  let ?v = "fsEvent \<lparr>Path = ''/B''\<rparr> (create_event ''/B/keep'')"
  have c: "IsCreate (Event ?u)" and d: "\<not> IsDelete (Event ?u)"
    and c': "IsCreate (Event ?v)" and d': "\<not> IsDelete (Event ?v)"
    by (simp_all add: fsEvent_def create_event_def)
  have dir: "is_dir sample_world ''/D''"
    by (simp add: is_dir_def sample_world_def)
  have n: "Name (Event ?u) = ''/A/x.txt''" "Name (Event ?v) = ''/B/keep''"
    by (simp_all add: fsEvent_def create_event_def)
  have b: "Base ''/A/x.txt'' = ''x.txt''" "Base ''/B/keep'' = ''keep''"
    by (simp_all add: Base_def)
  have free: "entry sample_world ''/D'' ''x.txt'' = None"
    and taken: "entry sample_world ''/D'' ''keep'' \<noteq> None"
    by (simp_all add: entry_def sample_world_def)
  show ?thesis
    using c d dir free taken
      UpdateDirs_create [OF c d dir] UpdateDirs_create [OF c' d' dir]
    by (simp add: n b join_def)
qed

text \<open>
  C2. A deletion notification for the file \<open>f\<close>. If the destination has an entry named
  \<open>Base f\<close>, UpdateDirs returns \<^verbatim>\<open>nil\<close>, that entry is absent afterwards, every other
  entry is as before and one line is logged. If it has none, the call fails with
  \<^verbatim>\<open>ENOENT\<close> and the world differs from the old one by the logged error line only.
\<close>

theorem UpdateDirs_delete:
  assumes "IsDelete (Event updated)" and "\<not> IsCreate (Event updated)"
  shows "(entry w dist (Base (Name (Event updated))) \<noteq> None \<longrightarrow>
            fst (UpdateDirs dist updated w) = None
          \<and> (\<forall>d n. entry (snd (UpdateDirs dist updated w)) d n =
                (if d = dist \<and> n = Base (Name (Event updated)) then None else entry w d n))
          \<and> logged (snd (UpdateDirs dist updated w)) =
              logged w @ [''Delete link: '' @ dist @ ''/'' @ Base (Name (Event updated))])
       \<and> (entry w dist (Base (Name (Event updated))) = None \<longrightarrow>
            UpdateDirs dist updated w =
              (Some (PathError ''remove'' (join (dist, Base (Name (Event updated)))) ENOENT),
               log_Println
                 (Error (PathError ''remove'' (join (dist, Base (Name (Event updated)))) ENOENT)) w))"
proof (cases "entry w dist (Base (Name (Event updated))) = None")
  case True
  with assms os_Remove_absent [OF True] show ?thesis
    by (simp add: UpdateDirs_def Let_def del: Error.simps)
next
  case False
  from os_Remove_present [OF False] obtain w2 where
    w2: "os_Remove (dist, Base (Name (Event updated))) w = Inr w2"
      "\<And>d n. entry w2 d n =
         (if d = dist \<and> n = Base (Name (Event updated)) then None else entry w d n)"
      "logged w2 = logged w"
    by blast
  have "UpdateDirs dist updated w =
      (None, log_Println (''Delete link: '' @ dist @ ''/'' @ Base (Name (Event updated))) w2)"
    using assms w2(1) by (simp add: UpdateDirs_def Let_def)
  with False w2 show ?thesis by simp
qed

theorem UpdateDirs_delete_witness:
  "IsDelete (Event (fsEvent \<lparr>Path = ''/A''\<rparr> (delete_event ''/A/keep'')))
   \<and> \<not> IsCreate (Event (fsEvent \<lparr>Path = ''/A''\<rparr> (delete_event ''/A/keep'')))
   \<and> entry sample_world ''/D'' (Base ''/A/keep'') \<noteq> None
   \<and> fst (UpdateDirs ''/D'' (fsEvent \<lparr>Path = ''/A''\<rparr> (delete_event ''/A/keep'')) sample_world) = None
   \<and> entry (snd (UpdateDirs ''/D'' (fsEvent \<lparr>Path = ''/A''\<rparr> (delete_event ''/A/keep'')) sample_world))
        ''/D'' ''keep'' = None
   \<and> entry sample_world ''/D'' (Base ''/A/x.txt'') = None
   \<and> fst (UpdateDirs ''/D'' (fsEvent \<lparr>Path = ''/A''\<rparr> (delete_event ''/A/x.txt'')) sample_world)
        = Some (PathError ''remove'' ''/D/x.txt'' ENOENT)
   \<and> dirs (snd (UpdateDirs ''/D'' (fsEvent \<lparr>Path = ''/A''\<rparr> (delete_event ''/A/x.txt'')) sample_world))
        = dirs sample_world"
proof -
  let ?u = "fsEvent \<lparr>Path = ''/A''\<rparr> (delete_event ''/A/keep'')"
  let ?v = "fsEvent \<lparr>Path = ''/A''\<rparr> (delete_event ''/A/x.txt'')"
  have d: "IsDelete (Event ?u)" and c: "\<not> IsCreate (Event ?u)"
    and d': "IsDelete (Event ?v)" and c': "\<not> IsCreate (Event ?v)"
    by (simp_all add: fsEvent_def delete_event_def)
  have n: "Name (Event ?u) = ''/A/keep''" "Name (Event ?v) = ''/A/x.txt''"
    by (simp_all add: fsEvent_def delete_event_def)
  have b: "Base ''/A/x.txt'' = ''x.txt''" "Base ''/A/keep'' = ''keep''"
    by (simp_all add: Base_def)
  have free: "entry sample_world ''/D'' ''x.txt'' = None"
    and taken: "entry sample_world ''/D'' ''keep'' \<noteq> None"
    by (simp_all add: entry_def sample_world_def)
  show ?thesis
    using c d free taken
      UpdateDirs_delete [OF d c, of sample_world "''/D''"]
      UpdateDirs_delete [OF d' c', of sample_world "''/D''"]
    by (simp add: n b join_def)
qed

text \<open>
  C10. The deletion goes by name alone: whatever node \<open>nd\<close> the destination holds under
  \<open>Base f\<close> (a regular file, or a link to any target, also one that is not \<open>f\<close>), a
  deletion notification for \<open>f\<close> removes it and UpdateDirs returns \<^verbatim>\<open>nil\<close>.
\<close>

theorem UpdateDirs_delete_any_node:
  assumes "IsDelete (Event updated)" and "\<not> IsCreate (Event updated)"
    and "entry w dist (Base (Name (Event updated))) = Some nd"
  shows "fst (UpdateDirs dist updated w) = None
     \<and> entry (snd (UpdateDirs dist updated w)) dist (Base (Name (Event updated))) = None"
proof -
  have "entry w dist (Base (Name (Event updated))) \<noteq> None"
    using assms(3) by simp
  from os_Remove_present [OF this] obtain w2 where
    "os_Remove (dist, Base (Name (Event updated))) w = Inr w2"
    "entry w2 dist (Base (Name (Event updated))) = None"
    by auto
  with assms(1,2) show ?thesis by (simp add: UpdateDirs_def Let_def)
qed

theorem UpdateDirs_delete_any_node_witness:
  "IsDelete (Event (fsEvent \<lparr>Path = ''/B''\<rparr> (delete_event ''/B/keep'')))
   \<and> \<not> IsCreate (Event (fsEvent \<lparr>Path = ''/B''\<rparr> (delete_event ''/B/keep'')))
   \<and> entry sample_world ''/D'' (Base ''/B/keep'') = Some (Symlink ''/A/x.txt'')
   \<and> fst (UpdateDirs ''/D'' (fsEvent \<lparr>Path = ''/B''\<rparr> (delete_event ''/B/keep'')) sample_world) = None
   \<and> entry (snd (UpdateDirs ''/D'' (fsEvent \<lparr>Path = ''/B''\<rparr> (delete_event ''/B/keep'')) sample_world))
        ''/D'' ''keep'' = None
   \<and> entry sample_world ''/D'' (Base ''/A/note'') = Some RegularFile
   \<and> fst (UpdateDirs ''/D'' (fsEvent \<lparr>Path = ''/A''\<rparr> (delete_event ''/A/note'')) sample_world) = None
   \<and> entry (snd (UpdateDirs ''/D'' (fsEvent \<lparr>Path = ''/A''\<rparr> (delete_event ''/A/note'')) sample_world))
        ''/D'' ''note'' = None"
proof -
  let ?u = "fsEvent \<lparr>Path = ''/B''\<rparr> (delete_event ''/B/keep'')"
  let ?v = "fsEvent \<lparr>Path = ''/A''\<rparr> (delete_event ''/A/note'')"
  have d: "IsDelete (Event ?u)" and c: "\<not> IsCreate (Event ?u)"
    and d': "IsDelete (Event ?v)" and c': "\<not> IsCreate (Event ?v)"
    by (simp_all add: fsEvent_def delete_event_def)
  have b: "Base (Name (Event ?u)) = ''keep''" "Base (Name (Event ?v)) = ''note''"
    "Base ''/B/keep'' = ''keep''" "Base ''/A/note'' = ''note''"
    by (simp_all add: Base_def fsEvent_def delete_event_def)
  have link: "entry sample_world ''/D'' (Base (Name (Event ?u))) = Some (Symlink ''/A/x.txt'')"
    and reg: "entry sample_world ''/D'' (Base (Name (Event ?v))) = Some RegularFile"
    by (simp_all add: b entry_def sample_world_def)
  show ?thesis
    using c d link reg
      UpdateDirs_delete_any_node [OF d c link]
      UpdateDirs_delete_any_node [OF d' c' reg]
    by (simp add: b)
qed

text \<open>
  C5 (as stated, refuted). Two creation events for \<^verbatim>\<open>/A/dup.txt\<close> and \<^verbatim>\<open>/B/dup.txt\<close>,
  processed in this order on an empty destination: the entry \<^verbatim>\<open>dup.txt\<close> is the link to
  \<^verbatim>\<open>/A/dup.txt\<close>, the first of the two, not the link to the most recent one.
\<close>

theorem last_create_does_not_win:
  "Base ''/A/dup.txt'' = ''dup.txt'' \<and> Base ''/B/dup.txt'' = ''dup.txt''
   \<and> entry (process_updates ''/D''
        [fsEvent \<lparr>Path = ''/A''\<rparr> (create_event ''/A/dup.txt''),
         fsEvent \<lparr>Path = ''/B''\<rparr> (create_event ''/B/dup.txt'')] empty_dest_world)
       ''/D'' ''dup.txt'' = Some (Symlink ''/A/dup.txt'')
   \<and> entry (process_updates ''/D''
        [fsEvent \<lparr>Path = ''/A''\<rparr> (create_event ''/A/dup.txt''),
         fsEvent \<lparr>Path = ''/B''\<rparr> (create_event ''/B/dup.txt'')] empty_dest_world)
       ''/D'' ''dup.txt'' \<noteq> Some (Symlink ''/B/dup.txt'')"
  by (simp add: process_updates_def UpdateDirs_def os_Symlink_def entry_def Base_def
      fsEvent_def create_event_def empty_dest_world_def log_Println_def Let_def)

text \<open>
  C5 (amended). Two creation events with the same base name, processed one after the
  other on an existing destination directory: afterwards the destination has an entry
  of that name, and it is the entry that was there after the first event; the second
  call fails with \<^verbatim>\<open>EEXIST\<close>, leaves every directory as the first left it, and adds
  to the log exactly the line of that error. When the name was free before, the entry is
  the link to the file of the first event: the first create wins.
\<close>

theorem same_name_creates_first_wins:
  assumes "IsCreate (Event u1)" and "\<not> IsDelete (Event u1)"
    and "IsCreate (Event u2)" and "\<not> IsDelete (Event u2)"
    and "Base (Name (Event u1)) = Base (Name (Event u2))"
    and "is_dir w dist"
  shows "entry (process_updates dist [u1, u2] w) dist (Base (Name (Event u1))) \<noteq> None
     \<and> entry (process_updates dist [u1, u2] w) dist (Base (Name (Event u1)))
         = entry (process_updates dist [u1] w) dist (Base (Name (Event u1)))
     \<and> dirs (process_updates dist [u1, u2] w) = dirs (process_updates dist [u1] w)
     \<and> fst (UpdateDirs dist u2 (process_updates dist [u1] w))
         = Some (LinkError ''symlink'' (Name (Event u2))
                   (join (dist, Base (Name (Event u2)))) EEXIST)
     \<and> logged (process_updates dist [u1, u2] w)
         = logged (process_updates dist [u1] w)
           @ [Error (LinkError ''symlink'' (Name (Event u2))
                       (join (dist, Base (Name (Event u2)))) EEXIST)]
     \<and> (entry w dist (Base (Name (Event u1))) = None \<longrightarrow>
          entry (process_updates dist [u1, u2] w) dist (Base (Name (Event u1)))
            = Some (Symlink (Name (Event u1))))"
proof -
  let ?b = "Base (Name (Event u1))"
  let ?w1 = "snd (UpdateDirs dist u1 w)"
  have first: "is_dir ?w1 dist \<and> entry ?w1 dist ?b \<noteq> None
      \<and> (entry w dist ?b = None \<longrightarrow> entry ?w1 dist ?b = Some (Symlink (Name (Event u1))))"
  proof (cases "entry w dist ?b = None")
    case True
    from create_fresh [OF assms(1,2,6) True] assms(6) show ?thesis by simp
  next
    case False
    from create_clash [OF assms(1,6) False] assms(6) False show ?thesis
      by (simp add: is_dir_def)
  qed
  then have "is_dir ?w1 dist" "entry ?w1 dist (Base (Name (Event u2))) \<noteq> None"
    using assms(5) by simp_all
  from create_clash [OF assms(3) this] first assms(5) show ?thesis
    by (simp add: process_updates_def del: Error.simps)
qed

theorem same_name_creates_first_wins_witness:
  "IsCreate (Event (fsEvent \<lparr>Path = ''/A''\<rparr> (create_event ''/A/dup.txt'')))
   \<and> \<not> IsDelete (Event (fsEvent \<lparr>Path = ''/A''\<rparr> (create_event ''/A/dup.txt'')))
   \<and> IsCreate (Event (fsEvent \<lparr>Path = ''/B''\<rparr> (create_event ''/B/dup.txt'')))
   \<and> \<not> IsDelete (Event (fsEvent \<lparr>Path = ''/B''\<rparr> (create_event ''/B/dup.txt'')))
   \<and> Base (Name (Event (fsEvent \<lparr>Path = ''/A''\<rparr> (create_event ''/A/dup.txt''))))
       = Base (Name (Event (fsEvent \<lparr>Path = ''/B''\<rparr> (create_event ''/B/dup.txt''))))
   \<and> is_dir empty_dest_world ''/D''
   \<and> entry empty_dest_world ''/D'' ''dup.txt'' = None
   \<and> entry (process_updates ''/D''
        [fsEvent \<lparr>Path = ''/A''\<rparr> (create_event ''/A/dup.txt''),
         fsEvent \<lparr>Path = ''/B''\<rparr> (create_event ''/B/dup.txt'')] empty_dest_world)
       ''/D'' ''dup.txt'' = Some (Symlink ''/A/dup.txt'')
   \<and> fst (UpdateDirs ''/D'' (fsEvent \<lparr>Path = ''/B''\<rparr> (create_event ''/B/dup.txt''))
        (process_updates ''/D'' [fsEvent \<lparr>Path = ''/A''\<rparr> (create_event ''/A/dup.txt'')] empty_dest_world))
       = Some (LinkError ''symlink'' ''/B/dup.txt'' ''/D/dup.txt'' EEXIST)
   \<and> logged (process_updates ''/D''
        [fsEvent \<lparr>Path = ''/A''\<rparr> (create_event ''/A/dup.txt''),
         fsEvent \<lparr>Path = ''/B''\<rparr> (create_event ''/B/dup.txt'')] empty_dest_world)
       = logged (process_updates ''/D''
           [fsEvent \<lparr>Path = ''/A''\<rparr> (create_event ''/A/dup.txt'')] empty_dest_world)
         @ [''symlink /B/dup.txt /D/dup.txt: file exists'']"
proof -
  let ?u1 = "fsEvent \<lparr>Path = ''/A''\<rparr> (create_event ''/A/dup.txt'')"
  let ?u2 = "fsEvent \<lparr>Path = ''/B''\<rparr> (create_event ''/B/dup.txt'')"
  have c1: "IsCreate (Event ?u1)" and d1: "\<not> IsDelete (Event ?u1)"
    and c2: "IsCreate (Event ?u2)" and d2: "\<not> IsDelete (Event ?u2)"
    by (simp_all add: fsEvent_def create_event_def)
  have n: "Name (Event ?u1) = ''/A/dup.txt''" "Name (Event ?u2) = ''/B/dup.txt''"
    by (simp_all add: fsEvent_def create_event_def)
  have b: "Base ''/A/dup.txt'' = ''dup.txt''" "Base ''/B/dup.txt'' = ''dup.txt''"
    by (simp_all add: Base_def)
  have same: "Base (Name (Event ?u1)) = Base (Name (Event ?u2))"
    by (simp add: n b)
  have dir: "is_dir empty_dest_world ''/D''"
    and free: "entry empty_dest_world ''/D'' ''dup.txt'' = None"
    by (simp_all add: is_dir_def entry_def empty_dest_world_def)
  show ?thesis
    using c1 d1 c2 d2 same dir free
      same_name_creates_first_wins [OF c1 d1 c2 d2 same dir]
    by (auto simp: n b join_def)
qed

section \<open>Properties of the Reconciler\<close>



text \<open>
  C9 (as stated, refuted). The same destination, listed sources \<^verbatim>\<open>/A\<close> and \<^verbatim>\<open>/B\<close>, once
  with \<^verbatim>\<open>/A/x.txt\<close> present and once with it deleted: the link \<^verbatim>\<open>keep -> /A/x.txt\<close>
  stays in the first run and is removed in the second. What a source directory contains
  decides whether a link into it resolves, and so whether the link is removed. (Both
  worlds are \<open>coherent\<close>.)
\<close>

theorem removal_depends_on_source_contents:
  "\<not> isl (ioutil_ReadDir ''/A'' sample_world) \<and> \<not> isl (ioutil_ReadDir ''/B'' sample_world)
   \<and> \<not> isl (ioutil_ReadDir ''/A'' x_deleted_world) \<and> \<not> isl (ioutil_ReadDir ''/B'' x_deleted_world)
   \<and> map_of (dirs sample_world) ''/D'' = map_of (dirs x_deleted_world) ''/D''
   \<and> entry sample_world ''/A'' ''x.txt'' = Some RegularFile
   \<and> resolves sample_world ''/A/x.txt''
   \<and> entry x_deleted_world ''/A'' ''x.txt'' = None
   \<and> \<not> resolves x_deleted_world ''/A/x.txt''
   \<and> entry (snd (cleanDirs [\<lparr>Path = ''/A''\<rparr>, \<lparr>Path = ''/B''\<rparr>] ''/D'' sample_world)) ''/D'' ''keep''
        = Some (Symlink ''/A/x.txt'')
   \<and> entry (snd (cleanDirs [\<lparr>Path = ''/A''\<rparr>, \<lparr>Path = ''/B''\<rparr>] ''/D'' x_deleted_world)) ''/D'' ''keep''
        = None"
proof -
  let ?srcs = "[\<lparr>Path = ''/A''\<rparr>, \<lparr>Path = ''/B''\<rparr>]"
  let ?es = "[(''stale'', Symlink ''/gone''), (''keep'', Symlink ''/A/x.txt''), (''note'', RegularFile)]"
  have l1: "\<forall>s\<in>set ?srcs. \<not> isl (ioutil_ReadDir (Path s) sample_world)"
    and l2: "\<forall>s\<in>set ?srcs. \<not> isl (ioutil_ReadDir (Path s) x_deleted_world)"
    by (simp_all add: ioutil_ReadDir_def sample_world_def x_deleted_world_def)
  have d1: "map_of (dirs sample_world) ''/D'' = Some ?es"
    and d2: "map_of (dirs x_deleted_world) ''/D'' = Some ?es"
    by (simp_all add: sample_world_def x_deleted_world_def)
  have g1: "\<not> dangling sample_world (Symlink ''/A/x.txt'')"
    and g2: "dangling x_deleted_world (Symlink ''/A/x.txt'')"
    by (simp_all add: dangling_def sample_world_def x_deleted_world_def)
  from cleanDirs_result [OF l1 d1] g1
  have k1: "entry (snd (cleanDirs ?srcs ''/D'' sample_world)) ''/D'' ''keep''
      = Some (Symlink ''/A/x.txt'')"
    by (auto simp: entry_def update_conv')
  from cleanDirs_result [OF l2 d2] g2
  have k2: "entry (snd (cleanDirs ?srcs ''/D'' x_deleted_world)) ''/D'' ''keep'' = None"
    by (auto simp: entry_def update_conv')
  have "entry sample_world ''/A'' ''x.txt'' = Some RegularFile"
    "resolves sample_world ''/A/x.txt''"
    "entry x_deleted_world ''/A'' ''x.txt'' = None"
    "\<not> resolves x_deleted_world ''/A/x.txt''"
    by (simp_all add: entry_def sample_world_def x_deleted_world_def)
  with l1 l2 d1 d2 k1 k2 show ?thesis by simp
qed

text \<open>
  C9 (amended). Two runs of cleanDirs, on any two lists of source directories that can all
  be listed, in two worlds that have the same destination directory and in which the
  target of each link of the destination resolves in the one exactly when it resolves
  in the other: both return the same result and leave the same destination directory.
  The map from names to source paths plays no part, and the rest of what the source
  directories contain plays none either.
\<close>

theorem cleanDirs_ignores_source_contents:
  assumes "\<forall>s\<in>set sources1. \<not> isl (ioutil_ReadDir (Path s) w1)"
    and "\<forall>s\<in>set sources2. \<not> isl (ioutil_ReadDir (Path s) w2)"
    and "map_of (dirs w1) target = map_of (dirs w2) target"
    and "\<forall>n t. entry w1 target n = Some (Symlink t) \<longrightarrow> resolves w1 t = resolves w2 t"
  shows "fst (cleanDirs sources1 target w1) = fst (cleanDirs sources2 target w2)
     \<and> map_of (dirs (snd (cleanDirs sources1 target w1))) target =
        map_of (dirs (snd (cleanDirs sources2 target w2))) target"
proof (cases "map_of (dirs w1) target")
  case None
  then have "ioutil_ReadDir target w1 = Inl (PathError ''open'' target ENOENT)"
    "ioutil_ReadDir target w2 = Inl (PathError ''open'' target ENOENT)"
    using assms(3) by (simp_all add: ioutil_ReadDir_def)
  moreover obtain m1 m2 where "collect_filenames sources1 w1 Map.empty = Inr m1"
    "collect_filenames sources2 w2 Map.empty = Inr m2"
    using assms(1,2) collect_filenames_isl [of sources1 w1 Map.empty]
      collect_filenames_isl [of sources2 w2 Map.empty]
    by (cases "collect_filenames sources1 w1 Map.empty"; cases "collect_filenames sources2 w2 Map.empty") auto
  ultimately show ?thesis using assms(3) by (simp add: cleanDirs_def cleanDirs_in_def)
next
  case (Some es)
  then have es2: "map_of (dirs w2) target = Some es" using assms(3) by simp
  have dg: "dangling w1 nd = dangling w2 nd" if "map_of es k = Some nd" for k nd
  proof (cases nd)
    case RegularFile
    then show ?thesis by (simp add: dangling_def)
  next
    case (Symlink t)
    with that Some have "entry w1 target k = Some (Symlink t)"
      by (simp add: entry_def)
    with assms(4) Symlink show ?thesis by (simp add: dangling_def)
  qed
  have "filter (\<lambda>p. \<not> (\<exists>nd. map_of es (fst p) = Some nd \<and> dangling w1 nd)) es
      = filter (\<lambda>p. \<not> (\<exists>nd. map_of es (fst p) = Some nd \<and> dangling w2 nd)) es"
    using dg by (intro filter_cong refl) auto
  with cleanDirs_result [OF assms(1) Some] cleanDirs_result [OF assms(2) es2]
  show ?thesis by (auto simp: update_conv')
qed

theorem cleanDirs_ignores_source_contents_witness:
  "\<not> isl (ioutil_ReadDir ''/A'' sample_world) \<and> \<not> isl (ioutil_ReadDir ''/B'' sample_world)
   \<and> \<not> isl (ioutil_ReadDir ''/A'' more_files_world) \<and> \<not> isl (ioutil_ReadDir ''/C'' more_files_world)
   \<and> map_of (dirs sample_world) ''/D'' = map_of (dirs more_files_world) ''/D''
   \<and> resolves sample_world ''/gone'' = resolves more_files_world ''/gone''
   \<and> resolves sample_world ''/A/x.txt'' = resolves more_files_world ''/A/x.txt''
   \<and> map_of (dirs sample_world) ''/A'' \<noteq> map_of (dirs more_files_world) ''/A''
   \<and> fst (cleanDirs [\<lparr>Path = ''/A''\<rparr>, \<lparr>Path = ''/B''\<rparr>] ''/D'' sample_world)
        = fst (cleanDirs [\<lparr>Path = ''/A''\<rparr>, \<lparr>Path = ''/C''\<rparr>] ''/D'' more_files_world)
   \<and> map_of (dirs (snd (cleanDirs [\<lparr>Path = ''/A''\<rparr>, \<lparr>Path = ''/B''\<rparr>] ''/D'' sample_world))) ''/D''
        = map_of (dirs (snd (cleanDirs [\<lparr>Path = ''/A''\<rparr>, \<lparr>Path = ''/C''\<rparr>] ''/D'' more_files_world))) ''/D''"
proof -
  have ls: "\<not> isl (ioutil_ReadDir ''/A'' sample_world)" "\<not> isl (ioutil_ReadDir ''/B'' sample_world)"
    and lc: "\<not> isl (ioutil_ReadDir ''/A'' more_files_world)"
      "\<not> isl (ioutil_ReadDir ''/C'' more_files_world)"
    by (simp_all add: ioutil_ReadDir_def sample_world_def more_files_world_def)
  then have h1: "\<forall>s\<in>set [\<lparr>Path = ''/A''\<rparr>, \<lparr>Path = ''/B''\<rparr>]. \<not> isl (ioutil_ReadDir (Path s) sample_world)"
    and h2: "\<forall>s\<in>set [\<lparr>Path = ''/A''\<rparr>, \<lparr>Path = ''/C''\<rparr>]. \<not> isl (ioutil_ReadDir (Path s) more_files_world)"
    by simp_all
  have same: "map_of (dirs sample_world) ''/D'' = map_of (dirs more_files_world) ''/D''"
    and r1: "resolves sample_world ''/gone'' = resolves more_files_world ''/gone''"
    and r2: "resolves sample_world ''/A/x.txt'' = resolves more_files_world ''/A/x.txt''"
    and diff: "map_of (dirs sample_world) ''/A'' \<noteq> map_of (dirs more_files_world) ''/A''"
    by (simp_all add: sample_world_def more_files_world_def)
  have agree: "\<forall>n t. entry sample_world ''/D'' n = Some (Symlink t) \<longrightarrow>
      resolves sample_world t = resolves more_files_world t"
    by (auto simp: entry_def sample_world_def more_files_world_def split: if_splits)
  show ?thesis
    using ls lc same r1 r2 diff cleanDirs_ignores_source_contents [OF h1 h2 same agree]
    by simp
qed

text \<open>
  C6. cleanDirs, under any refusals of the operating system, returns an error exactly
  when the listing of some source directory fails, or the listing of the destination
  fails, or for some entry of the destination \<^verbatim>\<open>Lstat\<close> fails or, the entry being a
  link that does not resolve, \<^verbatim>\<open>Remove\<close> fails. In main, with a destination argument
  given: in each of these cases startup ends in \<^verbatim>\<open>log.Fatalln\<close>, exit status 1, and
  no router exists; in no other case does it, and then the router starts, with no
  notification dispatched yet.
\<close>

theorem reconciliation_failure_is_fatal:
  "((fst (cleanDirs_in fl sources target w) \<noteq> None) =
      ((\<exists>s\<in>set sources. isl (ioutil_ReadDir (Path s) w)) \<or> isl (ioutil_ReadDir target w)
       \<or> (\<exists>f nd. entry w target f = Some nd
             \<and> (isl (os_Lstat_in fl (target, f) w)
                 \<or> (dangling w nd \<and> isl (os_Remove_in fl (target, f) w))))))
   \<and> (distanation \<noteq> [] \<longrightarrow>
        (if (\<exists>d\<in>set (strings_Split source). isl (ioutil_ReadDir d w))
            \<or> isl (ioutil_ReadDir distanation w)
            \<or> (\<exists>f nd. entry w distanation f = Some nd
                  \<and> (isl (os_Lstat_in fl (distanation, f) w)
                      \<or> (dangling w nd \<and> isl (os_Remove_in fl (distanation, f) w))))
         then \<exists>err w'. main_startup_in fl source distanation w =
                Exited 1 (log_Println (''First clean dirs was corrapted: '' @ Error err) w')
         else \<exists>r w'. main_startup_in fl source distanation w = Serving r w' \<and> spawned r = []))"
proof -
  let ?mds = "map (\<lambda>dir. \<lparr>Path = dir\<rparr>) (strings_Split source)"
  let ?w1 = "log_Println ''Starting pre-cleaner process'' w"
  let ?bad = "(\<exists>d\<in>set (strings_Split source). isl (ioutil_ReadDir d w))
      \<or> isl (ioutil_ReadDir distanation w)
      \<or> (\<exists>f nd. entry w distanation f = Some nd
            \<and> (isl (os_Lstat_in fl (distanation, f) w)
                \<or> (dangling w nd \<and> isl (os_Remove_in fl (distanation, f) w))))"
  have same_calls: "os_Lstat_in fl p ?w1 = os_Lstat_in fl p w"
    "isl (os_Remove_in fl p ?w1) = isl (os_Remove_in fl p w)"
    "dangling ?w1 nd = dangling w nd" for p nd
    by (simp_all add: os_Lstat_in_def os_Lstat_def os_Remove_in_def os_Remove_def
        dangling_def log_Println_def split: option.splits node.splits)
  have bad: "(fst (cleanDirs_in fl ?mds distanation ?w1) \<noteq> None) = ?bad"
    unfolding cleanDirs_in_error_iff by (simp add: same_calls)
  have start: "main_startup_in fl source distanation w =
      (case cleanDirs_in fl ?mds distanation ?w1 of
         (Some err, w2) \<Rightarrow>
           Exited 1 (log_Println (''First clean dirs was corrapted: '' @ Error err) w2)
       | (None, w2) \<Rightarrow>
           Serving \<lparr>exitCnt = int (length ?mds), manageDirs = ?mds,
                    watcherQuit = 0, spawned = []\<rparr> w2)"
    if "distanation \<noteq> []"
    using that strings_Split_nonempty [of source] by (simp add: main_startup_in_def Let_def)
  have fatal: "\<exists>err w'. main_startup_in fl source distanation w =
      Exited 1 (log_Println (''First clean dirs was corrapted: '' @ Error err) w')"
    if "distanation \<noteq> []" ?bad
  proof -
    from that(2) bad obtain err w2 where "cleanDirs_in fl ?mds distanation ?w1 = (Some err, w2)"
      by (cases "cleanDirs_in fl ?mds distanation ?w1") auto
    with start [OF that(1)] show ?thesis by auto
  qed
  have serve: "\<exists>r w'. main_startup_in fl source distanation w = Serving r w' \<and> spawned r = []"
    if "distanation \<noteq> []" "\<not> ?bad"
  proof -
    from that(2) bad obtain w2 where "cleanDirs_in fl ?mds distanation ?w1 = (None, w2)"
      by (cases "cleanDirs_in fl ?mds distanation ?w1") auto
    with start [OF that(1)] show ?thesis by auto
  qed
  show ?thesis
    using cleanDirs_in_error_iff [of fl sources target w] fatal serve
    by (simp del: Error.simps)
qed

theorem reconciliation_failure_is_fatal_witness:
  "entry sample_world ''/D'' ''stale'' = Some (Symlink ''/gone'')
   \<and> dangling sample_world (Symlink ''/gone'')
   \<and> isl (os_Remove_in stale_locked (''/D'', ''stale'') sample_world)
   \<and> fst (cleanDirs_in stale_locked [\<lparr>Path = ''/A''\<rparr>, \<lparr>Path = ''/B''\<rparr>] ''/D'' sample_world) \<noteq> None
   \<and> (\<exists>err w'. main_startup_in stale_locked ''/A,/B'' ''/D'' sample_world =
         Exited 1 (log_Println (''First clean dirs was corrapted: '' @ Error err) w'))
   \<and> isl (ioutil_ReadDir ''/missing'' sample_world)
   \<and> fst (cleanDirs_in no_faults [\<lparr>Path = ''/A''\<rparr>, \<lparr>Path = ''/missing''\<rparr>] ''/D'' sample_world) \<noteq> None
   \<and> (\<exists>err w'. main_startup_in no_faults ''/A,/missing'' ''/D'' sample_world =
         Exited 1 (log_Println (''First clean dirs was corrapted: '' @ Error err) w'))"
proof -
  have e: "entry sample_world ''/D'' ''stale'' = Some (Symlink ''/gone'')"
    and g: "dangling sample_world (Symlink ''/gone'')"
    and r: "isl (os_Remove_in stale_locked (''/D'', ''stale'') sample_world)"
    and l: "isl (ioutil_ReadDir ''/missing'' sample_world)"
    by (simp_all add: entry_def dangling_def os_Remove_in_def stale_locked_def
        ioutil_ReadDir_def sample_world_def)
  from e g r have hit: "\<exists>f nd. entry sample_world ''/D'' f = Some nd
      \<and> (isl (os_Lstat_in stale_locked (''/D'', f) sample_world)
          \<or> (dangling sample_world nd \<and> isl (os_Remove_in stale_locked (''/D'', f) sample_world)))"
    by blast
  have sp: "strings_Split ''/A,/B'' = [''/A'', ''/B'']"
    "strings_Split ''/A,/missing'' = [''/A'', ''/missing'']"
    by simp_all
  show ?thesis
    using e g r l hit
      reconciliation_failure_is_fatal
        [of stale_locked "[\<lparr>Path = ''/A''\<rparr>, \<lparr>Path = ''/B''\<rparr>]" "''/D''" sample_world "''/D''" "''/A,/B''"]
      reconciliation_failure_is_fatal
        [of no_faults "[\<lparr>Path = ''/A''\<rparr>, \<lparr>Path = ''/missing''\<rparr>]" "''/D''" sample_world "''/D''" "''/A,/missing''"]
    by (simp add: sp del: Error.simps)
qed

section \<open>Properties of the Event Router and of the signal handler\<close>

lemma fold_watcherQuit:
  "fold (\<lambda>dir r'. r'\<lparr>watcherQuit := Suc (watcherQuit r')\<rparr>) ds r
     = r\<lparr>watcherQuit := watcherQuit r + length ds\<rparr>"
  by (induction ds arbitrary: r) simp_all

lemma router_select_exitCnt:
  "exitCnt (router_select m r) = (if m = FromExit then exitCnt r - 1 else exitCnt r)"
  by (cases m) (simp_all add: fold_watcherQuit)

lemma router_loop_returns_iff:
  "0 < exitCnt r \<Longrightarrow> fst (router_loop ms r) = (exitCnt r \<le> int (count_list ms FromExit))"
proof (induction ms arbitrary: r)
  case Nil
  then show ?case by simp
next
  case (Cons m ms)
  show ?case
  proof (cases "exitCnt (router_select m r) = 0")
    case True
    with Cons.prems show ?thesis
      by (auto simp: router_select_exitCnt Let_def split: if_splits)
  next
    case False
    with Cons.prems have "0 < exitCnt (router_select m r)"
      by (auto simp: router_select_exitCnt split: if_splits)
    from Cons.IH [OF this] False show ?thesis
      by (auto simp: router_select_exitCnt Let_def split: if_splits)
  qed
qed

lemma router_loop_blocked_count:
  "\<not> fst (router_loop ms r) \<Longrightarrow>
   exitCnt (snd (router_loop ms r)) = exitCnt r - int (count_list ms FromExit)"
proof (induction ms arbitrary: r)
  case Nil
  then show ?case by simp
next
  case (Cons m ms)
  then show ?case
    by (cases "exitCnt (router_select m r) = 0")
       (auto simp: router_select_exitCnt Let_def split: if_splits)
qed

lemma router_loop_returned_zero:
  "fst (router_loop ms r) \<Longrightarrow> exitCnt (snd (router_loop ms r)) = 0"
proof (induction ms arbitrary: r)
  case Nil
  then show ?case by simp
next
  case (Cons m ms)
  then show ?case
    by (cases "exitCnt (router_select m r) = 0") (auto simp: Let_def)
qed

lemma main_startup_Serving:
  assumes "main_startup source distanation w = Serving r w'"
  shows "r = \<lparr>exitCnt = int (length (strings_Split source)),
              manageDirs = map (\<lambda>dir. \<lparr>Path = dir\<rparr>) (strings_Split source),
              watcherQuit = 0, spawned = []\<rparr>"
  using assms
  by (auto simp: main_startup_unfold Let_def split: if_splits prod.splits option.splits)

text \<open>
  C8. When startup reaches the router, \<^verbatim>\<open>exitCnt\<close> is the number of source
  directories, which is at least one. A message from the quit channel makes the router
  send one value per directory on \<^verbatim>\<open>WatcherQuit\<close> and leaves the counter; a message
  from the exit channel takes exactly one off the counter; a notification leaves it. Over
  any sequence of messages the loop has returned exactly when the exit messages among
  them are at least as many as the initial count; when it has returned the counter is
  zero, and while it has not, the counter is the initial count less the exit messages
  received. (Every send of the router is taken to find its receiver.)
\<close>

theorem router_counts_sessions:
  assumes "main_startup source distanation w = Serving r w'"
  shows "exitCnt r = int (length (manageDirs r))
     \<and> manageDirs r = map (\<lambda>dir. \<lparr>Path = dir\<rparr>) (strings_Split source)
     \<and> 0 < exitCnt r
     \<and> router_select FromQuit r1 = r1\<lparr>watcherQuit := watcherQuit r1 + length (manageDirs r1)\<rparr>
     \<and> router_select FromExit r1 = r1\<lparr>exitCnt := exitCnt r1 - 1\<rparr>
     \<and> exitCnt (router_select (FromUpdate u) r1) = exitCnt r1
     \<and> fst (router_loop ms r) = (exitCnt r \<le> int (count_list ms FromExit))
     \<and> (if fst (router_loop ms r) then exitCnt (snd (router_loop ms r)) = 0
         else exitCnt (snd (router_loop ms r)) = exitCnt r - int (count_list ms FromExit))"
proof -
  note r = main_startup_Serving [OF assms]
  have pos: "0 < exitCnt r"
    using strings_Split_nonempty [of source] by (simp add: r)
  show ?thesis
    using pos router_loop_returns_iff [OF pos, of ms]
      router_loop_blocked_count [of ms r] router_loop_returned_zero [of ms r]
    by (simp add: fold_watcherQuit) (simp add: r)
qed

theorem router_counts_sessions_witness:
  "main_startup ''/A,/B'' ''/D'' sample_world =
     Serving \<lparr>exitCnt = 2, manageDirs = [\<lparr>Path = ''/A''\<rparr>, \<lparr>Path = ''/B''\<rparr>],
              watcherQuit = 0, spawned = []\<rparr>
       (snd (cleanDirs [\<lparr>Path = ''/A''\<rparr>, \<lparr>Path = ''/B''\<rparr>] ''/D''
               (log_Println ''Starting pre-cleaner process'' sample_world)))
   \<and> \<not> fst (router_loop [FromQuit, FromExit]
          \<lparr>exitCnt = 2, manageDirs = [\<lparr>Path = ''/A''\<rparr>, \<lparr>Path = ''/B''\<rparr>],
           watcherQuit = 0, spawned = []\<rparr>)
   \<and> fst (router_loop [FromQuit, FromExit, FromExit]
          \<lparr>exitCnt = 2, manageDirs = [\<lparr>Path = ''/A''\<rparr>, \<lparr>Path = ''/B''\<rparr>],
           watcherQuit = 0, spawned = []\<rparr>)
   \<and> watcherQuit (router_select FromQuit
          \<lparr>exitCnt = 2, manageDirs = [\<lparr>Path = ''/A''\<rparr>, \<lparr>Path = ''/B''\<rparr>],
           watcherQuit = 0, spawned = []\<rparr>) = 2"
proof -
  let ?r = "\<lparr>exitCnt = 2, manageDirs = [\<lparr>Path = ''/A''\<rparr>, \<lparr>Path = ''/B''\<rparr>],
             watcherQuit = 0, spawned = []\<rparr>"
  let ?w1 = "log_Println ''Starting pre-cleaner process'' sample_world"
  let ?mds = "[\<lparr>Path = ''/A''\<rparr>, \<lparr>Path = ''/B''\<rparr>]"
  have sp: "strings_Split ''/A,/B'' = [''/A'', ''/B'']"
    by simp
  have "\<forall>s\<in>set ?mds. \<not> isl (ioutil_ReadDir (Path s) ?w1)"
    by (simp add: ioutil_ReadDir_def sample_world_def)
  moreover have "map_of (dirs ?w1) ''/D'' =
      Some [(''stale'', Symlink ''/gone''), (''keep'', Symlink ''/A/x.txt''), (''note'', RegularFile)]"
    by (simp add: sample_world_def)
  ultimately obtain w' where cd: "cleanDirs ?mds ''/D'' ?w1 = (None, w')"
    using cleanDirs_result by blast
  have start: "main_startup ''/A,/B'' ''/D'' sample_world = Serving ?r (snd (cleanDirs ?mds ''/D'' ?w1))"
    by (simp add: main_startup_unfold sp cd)
  show ?thesis
    using start router_counts_sessions [OF start, of ?r _ "[FromQuit, FromExit]"]
      router_counts_sessions [OF start, of ?r _ "[FromQuit, FromExit, FromExit]"]
    by simp
qed

text \<open>
  C4 (what the code does). The handler on \<^verbatim>\<open>SIGTERM\<close>, in a daemon whose two watch
  sessions are blocked waiting for their quit signal: the process exits with status 0 at
  once; nothing was sent on the quit channel and both sessions are still waiting.
\<close>

theorem handler_SIGTERM_exits_at_once:
  "handler SIGTERM watching_process =
     \<lparr>sessions = [AwaitQuit, AwaitQuit], quit_sent = 0, exit_status = Some 0,
      signal_log = [''signal: terminated'']\<rparr>"
  by (simp add: handler_def watching_process_def)

end
